theory Spec2Isabelle
  imports Complex_Main "HOL-Library.Multiset" "HOL-Library.Char_ord" "HOL-Library.List_Lexorder"
begin

section \<open>Shared modelling conventions\<close>

text \<open>
  The three in-memory stores of \<^verbatim>\<open>chroma_mcp\<close> (\<^verbatim>\<open>cache.py\<close>, \<^verbatim>\<open>entity_mapper.py\<close>,
  \<^verbatim>\<open>swarm.py\<close>) are embedded as pure functions over explicit states.

  \<^item> A Python \<^verbatim>\<open>dict\<close> / \<^verbatim>\<open>OrderedDict\<close> is an association list with distinct keys, kept in
    insertion order (first element = oldest insertion).
  \<^item> \<^verbatim>\<open>time.time()\<close> is a parameter \<open>now\<close> of every operation that reads the clock; all
    reads within one call see the same value.  Clock values and trail strengths are Python
    floats; they are idealised as real numbers.
  \<^item> \<^verbatim>\<open>hashlib.sha256(...).hexdigest()\<close> is a parameter \<open>H\<close> (an arbitrary function on
    strings): no property below depends on which function it is.
  \<^item> A raised exception is the \<open>Inl\<close> branch of a sum type.
\<close>

datatype py_error = KeyError

type_synonym ('k, 'v) pydict = "('k \<times> 'v) list"

text \<open>\<^verbatim>\<open>d[k] = v\<close>: an existing key keeps its position, a new key goes last.\<close>

fun dict_set :: "'k \<Rightarrow> 'v \<Rightarrow> ('k, 'v) pydict \<Rightarrow> ('k, 'v) pydict" where
  "dict_set k v [] = [(k, v)]"
| "dict_set k v ((k', v') # rest) =
     (if k' = k then (k, v) # rest else (k', v') # dict_set k v rest)"

text \<open>\<^verbatim>\<open>del d[k]\<close>: afterwards the key has no binding (the callers check membership first).\<close>

definition dict_del :: "'k \<Rightarrow> ('k, 'v) pydict \<Rightarrow> ('k, 'v) pydict" where
  "dict_del k d = filter (\<lambda>kv. fst kv \<noteq> k) d"

text \<open>\<^verbatim>\<open>d.get(k)\<close> / \<^verbatim>\<open>k in d\<close>: the first binding of the key.\<close>

fun dict_get :: "('k, 'v) pydict \<Rightarrow> 'k \<Rightarrow> 'v option" where
  "dict_get [] k = None"
| "dict_get ((k', v') # rest) k = (if k' = k then Some v' else dict_get rest k)"

definition keys :: "('k, 'v) pydict \<Rightarrow> 'k list" where
  "keys d = map fst d"

text \<open>\<^verbatim>\<open>OrderedDict.move_to_end(k)\<close> for a key that is present.\<close>

definition move_to_end :: "'k \<Rightarrow> ('k, 'v) pydict \<Rightarrow> ('k, 'v) pydict" where
  "move_to_end k d =
     (case dict_get d k of
        None \<Rightarrow> d
      | Some v \<Rightarrow> dict_del k d @ [(k, v)])"

text \<open>Truthiness of an \<^verbatim>\<open>Optional[str]\<close>: \<^verbatim>\<open>None\<close> and the empty string are falsy.\<close>

fun truthy :: "string option \<Rightarrow> bool" where
  "truthy None = False"
| "truthy (Some s) = (s \<noteq> [])"

section \<open>cache.py\<close>

record 'v CacheEntry =
  data :: 'v
  timestamp :: real
  ttl :: int
  access_count :: nat
  last_access :: real

text \<open>\<^verbatim>\<open>CacheEntry.__init__\<close>\<close>

definition new_entry :: "real \<Rightarrow> 'v \<Rightarrow> int \<Rightarrow> 'v CacheEntry" where
  "new_entry now d t =
     \<lparr>data = d, timestamp = now, ttl = t, access_count = 0, last_access = now\<rparr>"

text \<open>\<^verbatim>\<open>return time.time() - self.timestamp > self.ttl\<close>\<close>

definition is_expired :: "real \<Rightarrow> 'v CacheEntry \<Rightarrow> bool" where
  "is_expired now e = (now - timestamp e > real_of_int (ttl e))"

text \<open>\<^verbatim>\<open>CacheEntry.access\<close>: the entry object is updated in place, the data is returned.\<close>

definition access :: "real \<Rightarrow> 'v CacheEntry \<Rightarrow> 'v CacheEntry" where
  "access now e = e\<lparr>access_count := access_count e + 1, last_access := now\<rparr>"

type_synonym 'v store = "(string, 'v CacheEntry) pydict"

record 'v MemoryCache =
  max_size :: int
  default_ttl :: int
  the_cache :: "'v store"
  project_caches :: "(string, 'v store) pydict"

text \<open>\<^verbatim>\<open>MemoryCache.__init__\<close>\<close>

definition new_cache :: "int \<Rightarrow> int \<Rightarrow> 'v MemoryCache" where
  "new_cache ms dt = \<lparr>max_size = ms, default_ttl = dt, the_cache = [], project_caches = []\<rparr>"

text \<open>
  \<^verbatim>\<open>_evict_if_needed\<close>: \<^verbatim>\<open>while len(cache) >= self.max_size: cache.popitem(last=False)\<close>.
  \<^verbatim>\<open>popitem\<close> on an empty dictionary raises \<^verbatim>\<open>KeyError\<close>.
\<close>

fun evict_if_needed :: "int \<Rightarrow> 'v store \<Rightarrow> py_error + 'v store" where
  "evict_if_needed ms [] = (if int 0 \<ge> ms then Inl KeyError else Inr [])"
| "evict_if_needed ms (x # xs) =
     (if int (length (x # xs)) \<ge> ms then evict_if_needed ms xs else Inr (x # xs))"

text \<open>\<^verbatim>\<open>_cleanup_expired\<close>: collect the expired keys, then delete each of them.\<close>

definition cleanup_expired :: "real \<Rightarrow> 'v store \<Rightarrow> 'v store" where
  "cleanup_expired now c =
     (let expired_keys = map fst (filter (\<lambda>(key, entry). is_expired now entry) c)
      in foldl (\<lambda>c' key. dict_del key c') c expired_keys)"

text \<open>
  \<^verbatim>\<open>_get_cache\<close> returns a reference to the store of a scope, creating the project's store
  when the id is truthy and new.  \<open>ensure_cache\<close> is that creation, \<open>get_cache\<close> reads the
  store, and \<open>put_cache\<close> writes back what the caller did to the referenced store.
\<close>

definition ensure_cache :: "string option \<Rightarrow> 'v MemoryCache \<Rightarrow> 'v MemoryCache" where
  "ensure_cache project_id s =
     (if truthy project_id then
        (case dict_get (project_caches s) (the project_id) of
           None \<Rightarrow> s\<lparr>project_caches := dict_set (the project_id) [] (project_caches s)\<rparr>
         | Some c \<Rightarrow> s)
      else s)"

definition get_cache :: "string option \<Rightarrow> 'v MemoryCache \<Rightarrow> 'v store" where
  "get_cache project_id s =
     (if truthy project_id then
        (case dict_get (project_caches s) (the project_id) of None \<Rightarrow> [] | Some c \<Rightarrow> c)
      else the_cache s)"

definition put_cache :: "string option \<Rightarrow> 'v store \<Rightarrow> 'v MemoryCache \<Rightarrow> 'v MemoryCache" where
  "put_cache project_id c s =
     (if truthy project_id
      then s\<lparr>project_caches := dict_set (the project_id) c (project_caches s)\<rparr>
      else s\<lparr>the_cache := c\<rparr>)"

text \<open>\<^verbatim>\<open>ttl = ttl or self.default_ttl\<close>: \<^verbatim>\<open>None\<close> and \<open>0\<close> select the default.\<close>

definition effective_ttl :: "int option \<Rightarrow> int \<Rightarrow> int" where
  "effective_ttl t dflt = (case t of None \<Rightarrow> dflt | Some n \<Rightarrow> if n = 0 then dflt else n)"

text \<open>
  \<^verbatim>\<open>MemoryCache.set\<close>; the result is the returned key and the new state.  When the eviction
  loop raises, the call raises (\<open>Inl\<close>) before anything is inserted; the state such a call
  leaves behind is not part of the result.
\<close>

definition cache_set ::
  "real \<Rightarrow> string \<Rightarrow> 'v \<Rightarrow> int option \<Rightarrow> string option \<Rightarrow> 'v MemoryCache
   \<Rightarrow> py_error + (string \<times> 'v MemoryCache)" where
  "cache_set now key d t project_id s =
     (let t' = effective_ttl t (default_ttl s);
          s1 = ensure_cache project_id s;
          c = get_cache project_id s1;
          c1 = cleanup_expired now c
      in case evict_if_needed (max_size s1) c1 of
           Inl err \<Rightarrow> Inl err
         | Inr c2 \<Rightarrow>
             (let entry = new_entry now d t';
                  c3 = dict_set key entry c2;
                  c4 = move_to_end key c3
              in Inr (key, put_cache project_id c4 s1)))"

text \<open>\<^verbatim>\<open>MemoryCache.get\<close>; \<open>None\<close> is the miss.\<close>

definition cache_get ::
  "real \<Rightarrow> string \<Rightarrow> string option \<Rightarrow> 'v MemoryCache \<Rightarrow> 'v option \<times> 'v MemoryCache" where
  "cache_get now key project_id s =
     (let s1 = ensure_cache project_id s;
          c = get_cache project_id s1
      in case dict_get c key of
           None \<Rightarrow> (None, s1)
         | Some entry \<Rightarrow>
             if is_expired now entry
             then (None, put_cache project_id (dict_del key c) s1)
             else (Some (data entry), put_cache project_id (dict_set key (access now entry) c) s1))"

record cache_stats =
  total_entries :: nat
  expired_count :: nat
  active_entries :: nat
  total_accesses :: nat
  stats_max_size :: int
  stats_default_ttl :: int

text \<open>\<^verbatim>\<open>MemoryCache.get_stats\<close>\<close>

definition get_stats ::
  "real \<Rightarrow> string option \<Rightarrow> 'v MemoryCache \<Rightarrow> cache_stats \<times> 'v MemoryCache" where
  "get_stats now project_id s =
     (let s1 = ensure_cache project_id s;
          c = get_cache project_id s1;
          total = length c;
          expired = length (filter (\<lambda>(key, entry). is_expired now entry) c)
      in (\<lparr>total_entries = total, expired_count = expired, active_entries = total - expired,
           total_accesses = sum_list (map (\<lambda>(key, entry). access_count entry) c),
           stats_max_size = max_size s1, stats_default_ttl = default_ttl s1\<rparr>, s1))"

text \<open>\<^verbatim>\<open>MemoryCache.clear\<close>\<close>

definition clear :: "string option \<Rightarrow> 'v MemoryCache \<Rightarrow> 'v MemoryCache" where
  "clear project_id s =
     (if truthy project_id then
        (case dict_get (project_caches s) (the project_id) of
           None \<Rightarrow> s
         | Some c \<Rightarrow> s\<lparr>project_caches := dict_set (the project_id) [] (project_caches s)\<rparr>)
      else s\<lparr>the_cache := []\<rparr>)"

text \<open>\<^verbatim>\<open>MemoryCache.clear_all_projects\<close>\<close>

definition clear_all_projects :: "'v MemoryCache \<Rightarrow> 'v MemoryCache" where
  "clear_all_projects s = s\<lparr>project_caches := []\<rparr>"

subsection \<open>Key derivation\<close>

text \<open>
  The values handed to \<^verbatim>\<open>json.dumps\<close>.  A \<^verbatim>\<open>dict\<close> is the list of its items in the
  dictionary's own (insertion) order; its keys are strings.
\<close>

datatype json =
    JNull
  | JBool bool
  | JInt int
  | JStr string
  | JList "json list"
  | JDict "(string \<times> json) list"

definition digit_char :: "nat \<Rightarrow> char" where
  "digit_char n = char_of (48 + n)"

function digits :: "nat \<Rightarrow> string" where
  "digits n = (if n < 10 then [digit_char n] else digits (n div 10) @ [digit_char (n mod 10)])"
  by pat_completeness auto
termination
  by (relation "measure id") auto

definition encode_int :: "int \<Rightarrow> string" where
  "encode_int i = (if i < 0 then CHR ''-'' # digits (nat (- i)) else digits (nat i))"

definition hex_char :: "nat \<Rightarrow> char" where
  "hex_char n = (if n < 10 then char_of (48 + n) else char_of (87 + n))"

text \<open>
  \<^verbatim>\<open>json.encoder.py_encode_basestring_ascii\<close> on one character: the quote and the backslash
  are escaped, the usual control characters have short escapes, everything else outside
  \<^verbatim>\<open>' '..'~'\<close> becomes \<^verbatim>\<open>\uXXXX\<close>.  A \<open>char\<close> is a code point below 256.
\<close>

definition escape_char :: "char \<Rightarrow> string" where
  "escape_char c =
     (let n = (of_char c :: nat) in
      if n = 34 then [CHR 0x5C, CHR 0x22]
      else if n = 92 then [CHR 0x5C, CHR 0x5C]
      else if n = 10 then [CHR 0x5C, CHR ''n'']
      else if n = 13 then [CHR 0x5C, CHR ''r'']
      else if n = 9 then [CHR 0x5C, CHR ''t'']
      else if n = 8 then [CHR 0x5C, CHR ''b'']
      else if n = 12 then [CHR 0x5C, CHR ''f'']
      else if 32 \<le> n \<and> n \<le> 126 then [c]
      else [CHR 0x5C, CHR ''u'', CHR ''0'', CHR ''0'', hex_char (n div 16), hex_char (n mod 16)])"

definition encode_str :: "string \<Rightarrow> string" where
  "encode_str s = CHR 0x22 # concat (map escape_char s) @ [CHR 0x22]"

text \<open>\<^verbatim>\<open>', '.join(parts)\<close>\<close>

fun join :: "string list \<Rightarrow> string" where
  "join [] = []"
| "join [x] = x"
| "join (x # y # rest) = x @ '', '' @ join (y # rest)"

text \<open>
  \<^verbatim>\<open>json.dumps(data, sort_keys=True)\<close> with the default separators: the items of every
  dictionary, at every depth, are emitted in ascending order of their keys.
\<close>

fun json_dumps :: "json \<Rightarrow> string" where
  "json_dumps JNull = ''null''"
| "json_dumps (JBool b) = (if b then ''true'' else ''false'')"
| "json_dumps (JInt i) = encode_int i"
| "json_dumps (JStr s) = encode_str s"
| "json_dumps (JList xs) = ''['' @ join (map json_dumps xs) @ '']''"
| "json_dumps (JDict kvs) =
     ''{'' @ join (map (\<lambda>kv. encode_str (fst kv) @ '': '' @ snd kv)
                   (sort_key fst (map (\<lambda>kv. (fst kv, json_dumps (snd kv))) kvs))) @ ''}''"

text \<open>\<^verbatim>\<open>_generate_key\<close>\<close>

definition generate_key :: "(string \<Rightarrow> string) \<Rightarrow> json \<Rightarrow> string" where
  "generate_key H d = H (json_dumps d)"

text \<open>The dictionary literal both query wrappers build, fields in the order written.\<close>

definition query_key_data :: "json \<Rightarrow> string \<Rightarrow> string option \<Rightarrow> json" where
  "query_key_data query collection_name project_id =
     JDict [(''query'', query),
            (''collection'', JStr collection_name),
            (''project'', case project_id of None \<Rightarrow> JNull | Some p \<Rightarrow> JStr p)]"

text \<open>\<^verbatim>\<open>MemoryCache.cache_query_result\<close>\<close>

definition cache_query_result ::
  "(string \<Rightarrow> string) \<Rightarrow> real \<Rightarrow> json \<Rightarrow> 'v \<Rightarrow> string \<Rightarrow> string option \<Rightarrow> int option
   \<Rightarrow> 'v MemoryCache \<Rightarrow> py_error + (string \<times> 'v MemoryCache)" where
  "cache_query_result H now query result collection_name project_id t s =
     (let key = generate_key H (query_key_data query collection_name project_id)
      in cache_set now key result t project_id s)"

text \<open>\<^verbatim>\<open>MemoryCache.get_query_result\<close>\<close>

definition get_query_result ::
  "(string \<Rightarrow> string) \<Rightarrow> real \<Rightarrow> json \<Rightarrow> string \<Rightarrow> string option
   \<Rightarrow> 'v MemoryCache \<Rightarrow> 'v option \<times> 'v MemoryCache" where
  "get_query_result H now query collection_name project_id s =
     (let key = generate_key H (query_key_data query collection_name project_id)
      in cache_get now key project_id s)"

subsection \<open>Call sequences and scopes\<close>

text \<open>
  A sequence of calls on one \<^verbatim>\<open>MemoryCache\<close> object; \<open>run_ops\<close> threads the state through
  them, collects what each \<^verbatim>\<open>get\<close> returned, and stops at the first exception.
\<close>

datatype 'v cache_op =
    OpSet real string 'v "int option" "string option"
  | OpGet real string "string option"

fun run_ops ::
  "'v cache_op list \<Rightarrow> 'v MemoryCache \<Rightarrow> py_error + ('v option list \<times> 'v MemoryCache)" where
  "run_ops [] s = Inr ([], s)"
| "run_ops (OpSet now key d t project_id # ops) s =
     (case cache_set now key d t project_id s of
        Inl err \<Rightarrow> Inl err
      | Inr (k, s') \<Rightarrow> run_ops ops s')"
| "run_ops (OpGet now key project_id # ops) s =
     (case cache_get now key project_id s of
        (r, s') \<Rightarrow>
          (case run_ops ops s' of
             Inl err \<Rightarrow> Inl err
           | Inr (rs, s'') \<Rightarrow> Inr (r # rs, s'')))"

text \<open>
  The store \<^verbatim>\<open>_get_cache\<close> resolves a project id to: the global store for \<^verbatim>\<open>None\<close> and for
  the empty string (both falsy), the project's own store otherwise.
\<close>

definition scope :: "string option \<Rightarrow> string option" where
  "scope project_id = (if truthy project_id then project_id else None)"

text \<open>
  Two JSON values that differ only in the order in which dictionaries (at any depth) list
  their items.
\<close>

inductive reordered :: "json \<Rightarrow> json \<Rightarrow> bool" where
  same: "reordered j j"
| in_list: "list_all2 reordered xs ys \<Longrightarrow> reordered (JList xs) (JList ys)"
| in_dict:
    "distinct (map fst kvs) \<Longrightarrow> distinct (map fst kvs') \<Longrightarrow>
     set (map fst kvs) = set (map fst kvs') \<Longrightarrow>
     (\<forall>k v v'. (k, v) \<in> set kvs \<and> (k, v') \<in> set kvs' \<longrightarrow> reordered v v') \<Longrightarrow>
     reordered (JDict kvs) (JDict kvs')"

section \<open>entity\_mapper.py\<close>

type_synonym props = "(string, json) pydict"

text \<open>
  A Python \<^verbatim>\<open>set\<close> of strings is a list without repetitions; the order of the list stands
  for the order in which the set happens to be iterated, which Python leaves open.
\<close>

definition set_add :: "'a \<Rightarrow> 'a list \<Rightarrow> 'a list" where
  "set_add x xs = (if x \<in> set xs then xs else xs @ [x])"

record Entity =
  entity_id :: string
  entity_type :: string
  properties :: props
  relationships :: "string list"

record Relationship =
  relationship_id :: string
  source_id :: string
  target_id :: string
  relationship_type :: string
  rel_properties :: props

text \<open>\<^verbatim>\<open>properties or {}\<close>\<close>

definition props_or_empty :: "props option \<Rightarrow> props" where
  "props_or_empty p = (case p of None \<Rightarrow> [] | Some d \<Rightarrow> d)"

text \<open>The four dictionaries of \<^verbatim>\<open>EntityRelationshipMapper\<close>.\<close>

record Mapper =
  entities :: "(string, Entity) pydict"
  relationships_by_id :: "(string, Relationship) pydict"
  entity_index :: "(string, string list) pydict"
  relationship_index :: "(string \<times> string, string list) pydict"

definition new_mapper :: Mapper where
  "new_mapper = \<lparr>entities = [], relationships_by_id = [], entity_index = [],
                  relationship_index = []\<rparr>"

text \<open>Reading a \<^verbatim>\<open>defaultdict(set)\<close>: a missing key reads as the empty set.\<close>

definition index_get :: "('k, 'a list) pydict \<Rightarrow> 'k \<Rightarrow> 'a list" where
  "index_get d k = (case dict_get d k of None \<Rightarrow> [] | Some v \<Rightarrow> v)"

text \<open>\<^verbatim>\<open>add_entity\<close>\<close>

definition add_entity :: "string \<Rightarrow> string \<Rightarrow> props option \<Rightarrow> Mapper \<Rightarrow> Entity \<times> Mapper" where
  "add_entity eid etype p m =
     (let entity = \<lparr>entity_id = eid, entity_type = etype, properties = props_or_empty p,
                    relationships = []\<rparr>
      in (entity,
          m\<lparr>entities := dict_set eid entity (entities m),
            entity_index :=
              dict_set etype (set_add eid (index_get (entity_index m) etype)) (entity_index m)\<rparr>))"

text \<open>\<^verbatim>\<open>self._entities[id].relationships.add(rid)\<close>, the entity being present.\<close>

definition attach :: "string \<Rightarrow> string \<Rightarrow> (string, Entity) pydict \<Rightarrow> (string, Entity) pydict" where
  "attach eid rid ents =
     (case dict_get ents eid of
        None \<Rightarrow> ents
      | Some e \<Rightarrow> dict_set eid (e\<lparr>relationships := set_add rid (relationships e)\<rparr>) ents)"

text \<open>\<^verbatim>\<open>add_relationship\<close>; \<open>None\<close> is the failure return.\<close>

definition add_relationship ::
  "string \<Rightarrow> string \<Rightarrow> string \<Rightarrow> string \<Rightarrow> props option \<Rightarrow> Mapper
   \<Rightarrow> Relationship option \<times> Mapper" where
  "add_relationship rid src tgt rtype p m =
     (if dict_get (entities m) src = None \<or> dict_get (entities m) tgt = None then (None, m)
      else
        (let relationship = \<lparr>relationship_id = rid, source_id = src, target_id = tgt,
                              relationship_type = rtype, rel_properties = props_or_empty p\<rparr>
         in (Some relationship,
             m\<lparr>relationships_by_id := dict_set rid relationship (relationships_by_id m),
               relationship_index :=
                 dict_set (src, tgt) (set_add rid (index_get (relationship_index m) (src, tgt)))
                   (relationship_index m),
               entities := attach tgt rid (attach src rid (entities m))\<rparr>)))"

text \<open>
  The loop of \<^verbatim>\<open>get_connected_entities\<close> over \<^verbatim>\<open>entity.relationships\<close>.
  \<^verbatim>\<open>self._relationships[rel_id]\<close> raises \<^verbatim>\<open>KeyError\<close> for an id that is not registered.
\<close>

fun connected_loop ::
  "Mapper \<Rightarrow> string \<Rightarrow> string option \<Rightarrow> string list \<Rightarrow> py_error + (Entity \<times> Relationship) list" where
  "connected_loop m eid rtype [] = Inr []"
| "connected_loop m eid rtype (rel_id # rest) =
     (case dict_get (relationships_by_id m) rel_id of
        None \<Rightarrow> Inl KeyError
      | Some rel \<Rightarrow>
          if truthy rtype \<and> relationship_type rel \<noteq> the rtype
          then connected_loop m eid rtype rest
          else
            (let other_id = (if source_id rel = eid then target_id rel else source_id rel)
             in case dict_get (entities m) other_id of
                  None \<Rightarrow> connected_loop m eid rtype rest
                | Some other_entity \<Rightarrow>
                    (case connected_loop m eid rtype rest of
                       Inl err \<Rightarrow> Inl err
                     | Inr conn \<Rightarrow> Inr ((other_entity, rel) # conn))))"

text \<open>\<^verbatim>\<open>get_connected_entities\<close>\<close>

definition get_connected_entities ::
  "Mapper \<Rightarrow> string \<Rightarrow> string option \<Rightarrow> py_error + (Entity \<times> Relationship) list" where
  "get_connected_entities m eid rtype =
     (case dict_get (entities m) eid of
        None \<Rightarrow> Inr []
      | Some entity \<Rightarrow> connected_loop m eid rtype (relationships entity))"

type_synonym path = "(string \<times> string) list"

text \<open>
  The \<^verbatim>\<open>for entity, rel in connected\<close> loop of \<^verbatim>\<open>find_path\<close>: it returns the path
  (\<open>Inl\<close>) at the first neighbour that is the target, and otherwise appends every neighbour
  to the queue (\<open>Inr\<close>).
\<close>

fun expand ::
  "string \<Rightarrow> string \<Rightarrow> path \<Rightarrow> (Entity \<times> Relationship) list \<Rightarrow> (string \<times> path) list
   \<Rightarrow> path + (string \<times> path) list" where
  "expand target current_id pth [] queue = Inr queue"
| "expand target current_id pth ((entity, rel) # rest) queue =
     (let new_path = pth @ [(current_id, relationship_id rel)]
      in if entity_id entity = target then Inl (new_path @ [(entity_id entity, [])])
         else expand target current_id pth rest (queue @ [(entity_id entity, new_path)]))"

text \<open>The \<^verbatim>\<open>while queue\<close> loop of \<^verbatim>\<open>find_path\<close>; \<open>Inr None\<close> is \<^verbatim>\<open>return None\<close>.\<close>

function bfs ::
  "Mapper \<Rightarrow> string \<Rightarrow> int \<Rightarrow> string set \<Rightarrow> (string \<times> path) list \<Rightarrow> py_error + path option" where
  "bfs m target max_depth visited [] = Inr None"
| "bfs m target max_depth visited ((current_id, pth) # queue) =
     (if int (length pth) \<ge> max_depth then bfs m target max_depth visited queue
      else if current_id \<in> visited then bfs m target max_depth visited queue
      else
        (case get_connected_entities m current_id None of
           Inl err \<Rightarrow> Inl err
         | Inr conn \<Rightarrow>
             (case expand target current_id pth conn queue of
                Inl found \<Rightarrow> Inr (Some found)
              | Inr queue' \<Rightarrow> bfs m target max_depth (insert current_id visited) queue')))"
  by pat_completeness auto
termination
proof (relation "measures [\<lambda>(m, target, max_depth, visited, queue).
                             card (set (keys (entities m)) - visited),
                           \<lambda>(m, target, max_depth, visited, queue). length queue]")
  show "wf (measures [\<lambda>(m, target, max_depth, visited, queue).
                             card (set (keys (entities m)) - visited),
                      \<lambda>(m::Mapper, target::string, max_depth::int, visited::string set,
                         queue::(string \<times> path) list). length queue])"
    by simp
next
  fix m :: Mapper and target :: string and max_depth :: int and visited :: "string set"
    and current_id :: string and pth :: path and queue :: "(string \<times> path) list"
  show "((m, target, max_depth, visited, queue),
         (m, target, max_depth, visited, (current_id, pth) # queue))
        \<in> measures [\<lambda>(m, target, max_depth, visited, queue).
                             card (set (keys (entities m)) - visited),
                     \<lambda>(m, target, max_depth, visited, queue). length queue]"
    by simp
  then show "((m, target, max_depth, visited, queue),
         (m, target, max_depth, visited, (current_id, pth) # queue))
        \<in> measures [\<lambda>(m, target, max_depth, visited, queue).
                             card (set (keys (entities m)) - visited),
                     \<lambda>(m, target, max_depth, visited, queue). length queue]" .
next
  fix m :: Mapper and target :: string and max_depth :: int and visited :: "string set"
    and current_id :: string and pth :: path and queue queue' :: "(string \<times> path) list"
    and conn :: "(Entity \<times> Relationship) list"
  assume fresh: "current_id \<notin> visited"
    and gc: "get_connected_entities m current_id None = Inr conn"
    and ex: "expand target current_id pth conn queue = Inr queue'"
  show "((m, target, max_depth, insert current_id visited, queue'),
         (m, target, max_depth, visited, (current_id, pth) # queue))
        \<in> measures [\<lambda>(m, target, max_depth, visited, queue).
                             card (set (keys (entities m)) - visited),
                     \<lambda>(m, target, max_depth, visited, queue). length queue]"
  proof (cases "current_id \<in> set (keys (entities m))")
    case True
    have "set (keys (entities m)) - insert current_id visited
            \<subset> set (keys (entities m)) - visited"
      using True fresh by auto
    then have "card (set (keys (entities m)) - insert current_id visited)
            < card (set (keys (entities m)) - visited)"
      by (intro psubset_card_mono) auto
    then show ?thesis by simp
  next
    case False
    have "dict_get d current_id = None" if "current_id \<notin> set (keys d)"
      for d :: "(string, Entity) pydict"
      using that by (induction d) (auto simp: keys_def)
    with False have "dict_get (entities m) current_id = None" by blast
    with gc have "conn = []" by (simp add: get_connected_entities_def)
    with ex have "queue' = queue" by simp
    moreover have "set (keys (entities m)) - insert current_id visited
            = set (keys (entities m)) - visited"
      using False by auto
    ultimately show ?thesis by simp
  qed
qed

text \<open>\<^verbatim>\<open>find_path\<close>\<close>

definition find_path :: "Mapper \<Rightarrow> string \<Rightarrow> string \<Rightarrow> int \<Rightarrow> py_error + path option" where
  "find_path m src tgt max_depth =
     (if dict_get (entities m) src = None \<or> dict_get (entities m) tgt = None then Inr None
      else if src = tgt then Inr (Some [])
      else bfs m tgt max_depth {} [(src, [])])"

text \<open>
  The graph of the path property: exactly the entities \<open>A\<close>, \<open>B\<close>, \<open>C\<close> (three different
  ids, each entity stored under its own id) and exactly the relationships \<open>r1\<close> from \<open>A\<close> to
  \<open>B\<close> and \<open>r2\<close> from \<open>B\<close> to \<open>C\<close>, attached to their endpoints.  The set of \<open>B\<close> holds both
  ids, in either iteration order.
\<close>

definition chain_graph :: "Mapper \<Rightarrow> string \<Rightarrow> string \<Rightarrow> string \<Rightarrow> string \<Rightarrow> string \<Rightarrow> bool" where
  "chain_graph m A B C r1 r2 \<longleftrightarrow>
     A \<noteq> B \<and> B \<noteq> C \<and> A \<noteq> C \<and> r1 \<noteq> r2 \<and>
     set (keys (entities m)) = {A, B, C} \<and>
     map_option entity_id (dict_get (entities m) A) = Some A \<and>
     map_option entity_id (dict_get (entities m) B) = Some B \<and>
     map_option entity_id (dict_get (entities m) C) = Some C \<and>
     map_option relationships (dict_get (entities m) A) = Some [r1] \<and>
     map_option relationships (dict_get (entities m) B) \<in> {Some [r1, r2], Some [r2, r1]} \<and>
     map_option relationships (dict_get (entities m) C) = Some [r2] \<and>
     set (keys (relationships_by_id m)) = {r1, r2} \<and>
     map_option (\<lambda>r. (relationship_id r, source_id r, target_id r))
       (dict_get (relationships_by_id m) r1) = Some (r1, A, B) \<and>
     map_option (\<lambda>r. (relationship_id r, source_id r, target_id r))
       (dict_get (relationships_by_id m) r2) = Some (r2, B, C)"

text \<open>The chain built through the mapper's own operations, on a fresh mapper.\<close>

definition example_chain :: Mapper where
  "example_chain =
     snd (add_relationship ''r2'' ''B'' ''C'' ''NEXT'' None
       (snd (add_relationship ''r1'' ''A'' ''B'' ''NEXT'' None
         (snd (add_entity ''C'' ''Node'' None
           (snd (add_entity ''B'' ''Node'' None
             (snd (add_entity ''A'' ''Node'' None new_mapper)))))))))"

section \<open>swarm.py\<close>

text \<open>The metadata dictionary \<^verbatim>\<open>track_operation\<close> stores with a new trail.\<close>

record TrailMetadata =
  operation_type :: string
  collection :: string
  query :: string
  first_seen :: real

text \<open>
  \<^verbatim>\<open>PheromoneTrail\<close>.  The metadata is \<open>None\<close> for the empty dictionary of \<^verbatim>\<open>__init__\<close>.
\<close>

record PheromoneTrail =
  trail_id :: string
  strength :: real
  last_update :: real
  trail_access_count :: nat
  metadata :: "TrailMetadata option"

definition new_trail :: "real \<Rightarrow> string \<Rightarrow> real \<Rightarrow> PheromoneTrail" where
  "new_trail now tid initial_strength =
     \<lparr>trail_id = tid, strength = initial_strength, last_update = now,
      trail_access_count = 0, metadata = None\<rparr>"

text \<open>\<^verbatim>\<open>PheromoneTrail.reinforce\<close>\<close>

definition reinforce :: "real \<Rightarrow> real \<Rightarrow> PheromoneTrail \<Rightarrow> PheromoneTrail" where
  "reinforce now amount t =
     t\<lparr>strength := min 1 (strength t + amount), last_update := now,
       trail_access_count := trail_access_count t + 1\<rparr>"

text \<open>\<^verbatim>\<open>PheromoneTrail.evaporate\<close>\<close>

definition evaporate :: "real \<Rightarrow> real \<Rightarrow> PheromoneTrail \<Rightarrow> PheromoneTrail" where
  "evaporate now rate t =
     (let time_passed = now - last_update t;
          evaporation = rate * time_passed / 60
      in t\<lparr>strength := max 0 (strength t - evaporation), last_update := now\<rparr>)"

text \<open>One record of the per-collection operation log.\<close>

record PatternRecord =
  pattern_timestamp :: real
  pattern_operation :: string
  pattern_trail_id :: string

record SwarmTracker =
  evaporation_rate :: real
  trails :: "(string, PheromoneTrail) pydict"
  operation_patterns :: "(string, PatternRecord list) pydict"

definition new_tracker :: "real \<Rightarrow> SwarmTracker" where
  "new_tracker rate = \<lparr>evaporation_rate = rate, trails = [], operation_patterns = []\<rparr>"

text \<open>\<^verbatim>\<open>_generate_trail_id\<close>: the first 16 characters of the digest.\<close>

definition generate_trail_id :: "(string \<Rightarrow> string) \<Rightarrow> string \<Rightarrow> string \<Rightarrow> string \<Rightarrow> string" where
  "generate_trail_id H op coll q = take 16 (H (op @ '':'' @ coll @ '':'' @ q))"

text \<open>\<^verbatim>\<open>query or ""\<close>\<close>

definition query_or_empty :: "string option \<Rightarrow> string" where
  "query_or_empty q = (case q of None \<Rightarrow> [] | Some s \<Rightarrow> if s = [] then [] else s)"

text \<open>
  \<^verbatim>\<open>track_operation\<close>; the \<^verbatim>\<open>metadata\<close> argument is accepted and never read.  The log of the
  collection is a \<^verbatim>\<open>defaultdict(list)\<close> entry that is appended to.
\<close>

definition track_operation ::
  "(string \<Rightarrow> string) \<Rightarrow> real \<Rightarrow> string \<Rightarrow> string \<Rightarrow> string option \<Rightarrow> props option
   \<Rightarrow> SwarmTracker \<Rightarrow> string \<times> SwarmTracker" where
  "track_operation H now op collection_name q md s =
     (let query_str = query_or_empty q;
          tid = generate_trail_id H op collection_name query_str;
          trail =
            (case dict_get (trails s) tid of
               None \<Rightarrow>
                 (new_trail now tid 1)
                   \<lparr>metadata := Some \<lparr>operation_type = op, collection = collection_name,
                                        query = query_str, first_seen = now\<rparr>\<rparr>
             | Some t \<Rightarrow> t);
          trails' = dict_set tid (reinforce now (1 / 10) trail) (trails s);
          log = index_get (operation_patterns s) collection_name;
          patterns' =
            dict_set collection_name
              (log @ [\<lparr>pattern_timestamp = now, pattern_operation = op,
                        pattern_trail_id = tid\<rparr>])
              (operation_patterns s)
      in (tid, s\<lparr>trails := trails', operation_patterns := patterns'\<rparr>))"

text \<open>One entry of the list \<^verbatim>\<open>get_hot_trails\<close> returns.\<close>

record HotTrail =
  hot_trail_id :: string
  hot_strength :: real
  hot_access_count :: nat
  hot_metadata :: "TrailMetadata option"

definition hot_entry :: "PheromoneTrail \<Rightarrow> HotTrail" where
  "hot_entry t =
     \<lparr>hot_trail_id = trail_id t, hot_strength = strength t,
      hot_access_count = trail_access_count t, hot_metadata = metadata t\<rparr>"

text \<open>
  The slice \<^verbatim>\<open>xs[:n]\<close>: for a negative \<open>n\<close> Python drops the last \<open>-n\<close> elements instead.
\<close>

definition slice_to :: "'a list \<Rightarrow> int \<Rightarrow> 'a list" where
  "slice_to xs n = (if 0 \<le> n then take (nat n) xs else take (nat (int (length xs) + n)) xs)"

text \<open>
  \<^verbatim>\<open>get_hot_trails\<close>.  \<^verbatim>\<open>sort(key=strength, reverse=True)\<close> is stable: trails of equal
  strength stay in dictionary order, which is what a stable ascending sort on the negated
  strength yields.
\<close>

definition get_hot_trails ::
  "real \<Rightarrow> real \<Rightarrow> int \<Rightarrow> SwarmTracker \<Rightarrow> HotTrail list \<times> SwarmTracker" where
  "get_hot_trails now min_strength limit s =
     (let trails' = map (\<lambda>(tid, t). (tid, evaporate now (evaporation_rate s) t)) (trails s);
          hot_trails = map hot_entry (filter (\<lambda>t. strength t \<ge> min_strength) (map snd trails'));
          sorted_trails = sort_key (\<lambda>h. - hot_strength h) hot_trails
      in (slice_to sorted_trails limit, s\<lparr>trails := trails'\<rparr>))"

text \<open>A sequence of \<^verbatim>\<open>track_operation\<close> calls, each with its clock value and arguments.\<close>

fun track_all ::
  "(string \<Rightarrow> string) \<Rightarrow> (real \<times> string \<times> string \<times> string option) list \<Rightarrow> SwarmTracker
   \<Rightarrow> SwarmTracker" where
  "track_all H [] s = s"
| "track_all H ((now, op, coll, q) # calls) s =
     track_all H calls (snd (track_operation H now op coll q None s))"

section \<open>Properties of the cache\<close>

subsection \<open>Dictionary and store lemmas\<close>

lemma dict_get_dict_set:
  "dict_get (dict_set k v d) k' = (if k' = k then Some v else dict_get d k')"
  by (induction d) auto

lemma dict_get_dict_del:
  "dict_get (dict_del k d) k' = (if k' = k then None else dict_get d k')"
  by (induction d) (auto simp: dict_del_def)

lemma dict_get_append:
  "dict_get (d @ d') k = (case dict_get d k of None \<Rightarrow> dict_get d' k | Some v \<Rightarrow> Some v)"
  by (induction d) auto

lemma dict_get_move_to_end: "dict_get (move_to_end k d) k' = dict_get d k'"
  by (auto simp: move_to_end_def dict_get_append dict_get_dict_del split: option.splits)

lemma dict_get_None_iff: "dict_get d k = None \<longleftrightarrow> k \<notin> set (keys d)"
  by (induction d k rule: dict_get.induct) (auto simp: keys_def)

lemma length_dict_set_le: "length (dict_set k v d) \<le> Suc (length d)"
  by (induction d) auto

lemma length_dict_del_le: "length (dict_del k d) \<le> length d"
  by (simp add: dict_del_def)

lemma length_dict_del_hit: "dict_get d k = Some v \<Longrightarrow> length (dict_del k d) < length d"
proof (induction d)
  case Nil
  then show ?case by simp
next
  case (Cons a d)
  then show ?case
    by (cases a) (auto simp: dict_del_def less_Suc_eq_le split: if_splits)
qed

lemma length_move_to_end_le: "length (move_to_end k d) \<le> length d"
  using length_dict_del_hit [of d k]
  by (auto simp: move_to_end_def Suc_le_eq split: option.splits)

lemma keys_dict_set_hit: "dict_get d k = Some v' \<Longrightarrow> keys (dict_set k v d) = keys d"
  by (induction d) (auto simp: keys_def split: if_splits)

lemma keys_dict_set: 
  "keys (dict_set k v d) = (if k \<in> set (keys d) then keys d else keys d @ [k])"
  by (induction k v d rule: dict_set.induct) (auto simp: keys_def)

lemma keys_dict_del: "keys (dict_del k d) = filter (\<lambda>k'. k' \<noteq> k) (keys d)"
  by (induction d) (auto simp: keys_def dict_del_def)

lemma keys_move_to_end:
  "keys (move_to_end k d) = (if k \<in> set (keys d) then filter (\<lambda>k'. k' \<noteq> k) (keys d) @ [k] else keys d)"
proof (cases "dict_get d k")
  case None
  then have "k \<notin> set (keys d)" by (simp add: dict_get_None_iff)
  with None show ?thesis by (simp add: move_to_end_def)
next
  case (Some v)
  then have "k \<in> set (keys d)" using dict_get_None_iff [of d k] by auto
  moreover have "keys (dict_del k d @ [(k, v)]) = keys (dict_del k d) @ [k]"
    by (simp add: keys_def)
  ultimately show ?thesis using Some by (simp add: move_to_end_def keys_dict_del)
qed

lemma evict_length: "evict_if_needed ms c = Inr c' \<Longrightarrow> int (length c') < ms"
  by (induction c) (auto split: if_splits)

lemma evict_drop:
  "evict_if_needed ms c = Inr c' \<Longrightarrow> c' = drop (length c - nat (ms - 1)) c"
proof (induction c)
  case Nil
  then show ?case by (simp split: if_splits)
next
  case (Cons a c)
  show ?case
  proof (cases "int (length (a # c)) \<ge> ms")
    case True
    with Cons.prems have "evict_if_needed ms c = Inr c'" by simp
    from Cons.IH [OF this] evict_length [OF this] True show ?thesis
      by (simp add: Suc_diff_le nat_le_iff)
  next
    case False
    with Cons.prems show ?thesis by auto
  qed
qed

lemma evict_total: "1 \<le> ms \<Longrightarrow> \<exists>c'. evict_if_needed ms c = Inr c'"
  by (induction c) auto

lemma evict_raises: "ms \<le> 0 \<Longrightarrow> evict_if_needed ms c = Inl KeyError"
  by (induction c) auto

lemma length_foldl_dict_del: "length (foldl (\<lambda>c' key. dict_del key c') c ks) \<le> length c"
proof (induction ks arbitrary: c)
  case Nil
  then show ?case by simp
next
  case (Cons k ks)
  have "length (foldl (\<lambda>c' key. dict_del key c') (dict_del k c) ks) \<le> length (dict_del k c)"
    by (rule Cons.IH)
  also have "\<dots> \<le> length c" by (rule length_dict_del_le)
  finally show ?case by simp
qed

lemma length_cleanup_expired: "length (cleanup_expired now c) \<le> length c"
  by (simp add: cleanup_expired_def length_foldl_dict_del)

lemma get_cache_ensure_cache: "get_cache q (ensure_cache p s) = get_cache q s"
  by (auto simp: get_cache_def ensure_cache_def dict_get_dict_set split: option.splits)

lemma get_cache_put_cache_same: "get_cache p (put_cache p c s) = c"
  by (auto simp: get_cache_def put_cache_def dict_get_dict_set)

lemma max_size_ensure_cache: "max_size (ensure_cache p s) = max_size s"
  by (auto simp: ensure_cache_def split: option.splits)

lemma max_size_put_cache: "max_size (put_cache p c s) = max_size s"
  by (auto simp: put_cache_def)

lemma default_ttl_ensure_cache: "default_ttl (ensure_cache p s) = default_ttl s"
  by (auto simp: ensure_cache_def split: option.splits)

lemma cache_set_Inr:
  "cache_set now key d t p s = Inr (k, s') \<longleftrightarrow>
     (\<exists>c2. evict_if_needed (max_size s) (cleanup_expired now (get_cache p s)) = Inr c2 \<and>
           k = key \<and>
           s' = put_cache p (move_to_end key
                  (dict_set key (new_entry now d (effective_ttl t (default_ttl s))) c2))
                  (ensure_cache p s))"
  by (auto simp: cache_set_def Let_def get_cache_ensure_cache max_size_ensure_cache
           split: sum.splits)

lemma set_total:
  "1 \<le> max_size s \<Longrightarrow> \<exists>s'. cache_set now key d t p s = Inr (key, s')"
proof -
  assume "1 \<le> max_size s"
  from evict_total [OF this]
  obtain c2 where "evict_if_needed (max_size s) (cleanup_expired now (get_cache p s)) = Inr c2"
    by blast
  then show ?thesis unfolding cache_set_Inr by blast
qed

lemma set_bound_step:
  assumes "cache_set now key d t p s = Inr (k, s')"
  shows "max_size s' = max_size s" and "int (length (get_cache p s')) \<le> max_size s"
proof -
  from assms obtain c2 where
    ev: "evict_if_needed (max_size s) (cleanup_expired now (get_cache p s)) = Inr c2" and
    s': "s' = put_cache p (move_to_end key
                  (dict_set key (new_entry now d (effective_ttl t (default_ttl s))) c2))
                  (ensure_cache p s)"
    unfolding cache_set_Inr by blast
  show "max_size s' = max_size s"
    by (simp add: s' max_size_put_cache max_size_ensure_cache)
  let ?e = "new_entry now d (effective_ttl t (default_ttl s))"
  have "length (move_to_end key (dict_set key ?e c2)) \<le> Suc (length c2)"
    using length_move_to_end_le [of key "dict_set key ?e c2"] length_dict_set_le [of key ?e c2]
    by linarith
  with evict_length [OF ev]
  show "int (length (get_cache p s')) \<le> max_size s"
    by (simp add: s' get_cache_put_cache_same)
qed

lemma max_size_cache_get: "max_size (snd (cache_get now key p s)) = max_size s"
  by (simp add: cache_get_def Let_def max_size_put_cache max_size_ensure_cache
      split: option.splits)

lemma run_ops_snoc_set:
  "run_ops (ops @ [OpSet now key d t p]) s = Inr (rs, s') \<Longrightarrow>
   \<exists>s1. max_size s1 = max_size s \<and> cache_set now key d t p s1 = Inr (key, s')"
proof (induction ops arbitrary: s rs)
  case Nil
  then obtain k where "cache_set now key d t p s = Inr (k, s')"
    by (auto split: sum.splits)
  moreover from this have "k = key" unfolding cache_set_Inr by blast
  ultimately show ?case by blast
next
  case (Cons op ops)
  show ?case
  proof (cases op)
    case (OpSet now0 key0 d0 t0 p0)
    with Cons.prems obtain k0 s0 where
      first: "cache_set now0 key0 d0 t0 p0 s = Inr (k0, s0)"
      and rest: "run_ops (ops @ [OpSet now key d t p]) s0 = Inr (rs, s')"
      by (auto split: sum.splits)
    from first have "max_size s0 = max_size s"
      by (auto simp: cache_set_Inr max_size_put_cache max_size_ensure_cache)
    with Cons.IH [OF rest] show ?thesis by auto
  next
    case (OpGet now0 key0 p0)
    with Cons.prems obtain rs0 where
      rest: "run_ops (ops @ [OpSet now key d t p]) (snd (cache_get now0 key0 p0 s)) = Inr (rs0, s')"
      by (auto split: sum.splits prod.splits)
    with Cons.IH [OF rest] show ?thesis by (auto simp: max_size_cache_get)
  qed
qed

lemma foldl_dict_del:
  "foldl (\<lambda>c' key. dict_del key c') c ks = filter (\<lambda>kv. fst kv \<notin> set ks) c"
proof (induction ks arbitrary: c)
  case Nil
  show ?case by simp
next
  case (Cons k ks)
  show ?case by (simp add: Cons.IH) (auto simp: dict_del_def intro: filter_cong)
qed

lemma cleanup_expired_entries:
  "(k, e) \<in> set (cleanup_expired now c) \<Longrightarrow> \<not> is_expired now e \<and> (k, e) \<in> set c"
  by (force simp: cleanup_expired_def foldl_dict_del)

lemma cleanup_expired_distinct:
  assumes "distinct (keys c)"
  shows "cleanup_expired now c = filter (\<lambda>kv. \<not> is_expired now (snd kv)) c"
proof -
  have inj: "inj_on fst (set c)" using assms by (simp add: keys_def distinct_map)
  have "fst kv \<notin> fst ` {x \<in> set c. is_expired now (snd x)} \<longleftrightarrow> \<not> is_expired now (snd kv)"
    if "kv \<in> set c" for kv
  proof
    assume "fst kv \<notin> fst ` {x \<in> set c. is_expired now (snd x)}"
    with that show "\<not> is_expired now (snd kv)" by blast
  next
    assume live: "\<not> is_expired now (snd kv)"
    show "fst kv \<notin> fst ` {x \<in> set c. is_expired now (snd x)}"
    proof
      assume "fst kv \<in> fst ` {x \<in> set c. is_expired now (snd x)}"
      then obtain x where x: "x \<in> set c" "is_expired now (snd x)" "fst x = fst kv" by auto
      with inj that have "x = kv" by (auto dest: inj_onD)
      with x live show False by simp
    qed
  qed
  then have "filter (\<lambda>kv. fst kv \<notin> fst ` {x \<in> set c. is_expired now (snd x)}) c
           = filter (\<lambda>kv. \<not> is_expired now (snd kv)) c"
    by (intro filter_cong) auto
  moreover have "set (map fst (filter (\<lambda>(key, entry). is_expired now entry) c))
           = fst ` {x \<in> set c. is_expired now (snd x)}"
    by (auto simp: case_prod_beta)
  ultimately show ?thesis by (simp add: cleanup_expired_def foldl_dict_del)
qed

lemma filter_dict_set:
  "filter (\<lambda>kv. fst kv \<noteq> k) (dict_set k v d) = filter (\<lambda>kv. fst kv \<noteq> k) d"
  by (induction k v d rule: dict_set.induct) auto

lemma insert_after:
  "move_to_end k (dict_set k v d) = filter (\<lambda>kv. fst kv \<noteq> k) d @ [(k, v)]"
  by (simp add: move_to_end_def dict_get_dict_set dict_del_def filter_dict_set)

lemma set_store_explicit:
  assumes "cache_set now key d t p s = Inr (k, s')"
  shows "get_cache p s' =
           filter (\<lambda>kv. fst kv \<noteq> key)
             (drop (length (cleanup_expired now (get_cache p s)) - nat (max_size s - 1))
                (cleanup_expired now (get_cache p s)))
           @ [(key, new_entry now d (effective_ttl t (default_ttl s)))]"
proof -
  from assms obtain c2 where
    ev: "evict_if_needed (max_size s) (cleanup_expired now (get_cache p s)) = Inr c2" and
    s': "s' = put_cache p (move_to_end key
                  (dict_set key (new_entry now d (effective_ttl t (default_ttl s))) c2))
                  (ensure_cache p s)"
    unfolding cache_set_Inr by blast
  from evict_drop [OF ev] show ?thesis
    by (simp add: s' get_cache_put_cache_same insert_after)
qed


lemma distinct_after_set:
  assumes "distinct (keys c)"
  shows "distinct (keys (filter (\<lambda>kv. fst kv \<noteq> k) (drop n c) @ [(k, v)]))"
proof -
  have "distinct (map fst (drop n c))" using assms by (simp add: keys_def drop_map [symmetric])
  then have "distinct (map fst (filter (\<lambda>kv. fst kv \<noteq> k) (drop n c)))"
    by (rule distinct_map_filter)
  then show ?thesis by (auto simp: keys_def)
qed

subsection \<open>The size bound\<close>

text \<open>
  Claim C5.  After any sequence of \<^verbatim>\<open>set\<close> and \<^verbatim>\<open>get\<close> calls that ends with a \<^verbatim>\<open>set\<close>
  (whatever the keys, from any starting state), the store of the scope that \<^verbatim>\<open>set\<close> wrote
  to holds at most \<open>max_size\<close> entries, expired ones included.  For the single call: a
  \<^verbatim>\<open>set\<close> that returns leaves the new entry inserted into what expiry cleanup followed by
  eviction left, so both run before the insertion.  Cleanup has removed every expired
  entry by then: each entry left under another key is an entry of the store before the
  call that is not expired at the time of the call.  For a store with distinct keys (as a
  dictionary has) the result is explicit: the unexpired entries in their order, without
  the oldest ones beyond \<open>max_size - 1\<close>, without the written key, followed by the new
  entry; its keys are distinct again.  For \<open>max_size \<ge> 1\<close> the call always returns; for
  \<open>max_size \<le> 0\<close> the eviction loop pops from an empty store and the call raises
  \<^verbatim>\<open>KeyError\<close> without inserting.
\<close>

theorem set_respects_max_size:
  "(\<forall>ops rs s'. run_ops (ops @ [OpSet now key d t p]) s = Inr (rs, s') \<longrightarrow>
      max_size s' = max_size s \<and> int (length (get_cache p s')) \<le> max_size s) \<and>
   (\<forall>k s'. cache_set now key d t p s = Inr (k, s') \<longrightarrow>
      (\<exists>c2. evict_if_needed (max_size s) (cleanup_expired now (get_cache p s)) = Inr c2 \<and>
            get_cache p s' =
              move_to_end key
                (dict_set key (new_entry now d (effective_ttl t (default_ttl s))) c2)) \<and>
      (\<forall>k' e. (k', e) \<in> set (get_cache p s') \<and> k' \<noteq> key \<longrightarrow>
            \<not> is_expired now e \<and> (k', e) \<in> set (get_cache p s)) \<and>
      (distinct (keys (get_cache p s)) \<longrightarrow>
         distinct (keys (get_cache p s')) \<and>
         get_cache p s' =
           filter (\<lambda>kv. fst kv \<noteq> key)
             (drop (length (filter (\<lambda>kv. \<not> is_expired now (snd kv)) (get_cache p s))
                     - nat (max_size s - 1))
                (filter (\<lambda>kv. \<not> is_expired now (snd kv)) (get_cache p s)))
           @ [(key, new_entry now d (effective_ttl t (default_ttl s)))])) \<and>
   (1 \<le> max_size s \<longrightarrow> (\<exists>s'. cache_set now key d t p s = Inr (key, s')))"
proof (intro conjI allI impI)
  fix ops rs s'
  assume "run_ops (ops @ [OpSet now key d t p]) s = Inr (rs, s')"
  from run_ops_snoc_set [OF this] obtain s1 where
    m: "max_size s1 = max_size s" and st: "cache_set now key d t p s1 = Inr (key, s')"
    by blast
  from set_bound_step [OF st] m
  show "max_size s' = max_size s" and "int (length (get_cache p s')) \<le> max_size s"
    by simp_all
next
  fix k s'
  assume a: "cache_set now key d t p s = Inr (k, s')"
  then show "\<exists>c2. evict_if_needed (max_size s) (cleanup_expired now (get_cache p s)) = Inr c2 \<and>
            get_cache p s' =
              move_to_end key
                (dict_set key (new_entry now d (effective_ttl t (default_ttl s))) c2)"
    unfolding cache_set_Inr by (auto simp: get_cache_put_cache_same)
  note ex = set_store_explicit [OF a]
  {
    fix k' e
    assume b: "(k', e) \<in> set (get_cache p s') \<and> k' \<noteq> key"
    then have "(k', e) \<in> set (cleanup_expired now (get_cache p s))"
      unfolding ex by (auto dest: in_set_dropD)
    from cleanup_expired_entries [OF this]
    show "\<not> is_expired now e" and "(k', e) \<in> set (get_cache p s)" by simp_all
  }
  {
    assume dst: "distinct (keys (get_cache p s))"
    let ?live = "filter (\<lambda>kv. \<not> is_expired now (snd kv)) (get_cache p s)"
    have cl: "cleanup_expired now (get_cache p s) = ?live"
      by (rule cleanup_expired_distinct [OF dst])
    show eq: "get_cache p s' =
           filter (\<lambda>kv. fst kv \<noteq> key) (drop (length ?live - nat (max_size s - 1)) ?live)
           @ [(key, new_entry now d (effective_ttl t (default_ttl s)))]"
      using ex by (simp add: cl)
    have "distinct (keys ?live)"
      using dst by (simp add: keys_def distinct_map_filter)
    from distinct_after_set [OF this]
    show "distinct (keys (get_cache p s'))" unfolding eq .
  }
next
  assume "1 \<le> max_size s"
  then show "\<exists>s'. cache_set now key d t p s = Inr (key, s')" by (rule set_total)
qed

theorem set_respects_max_size_witness:
  "map_sum id (\<lambda>(rs, s). (rs, keys (get_cache (Some ''p'') s), max_size s))
     (run_ops ([OpSet 0 ''a'' (1::nat) (Some 1) (Some ''p''), OpSet 1 ''b'' 2 None (Some ''p''),
                OpGet 1 ''a'' (Some ''p'')] @ [OpSet 5 ''c'' 3 None (Some ''p'')])
        (new_cache 3 3600))
   = Inr ([Some 1], [''b'', ''c''], 3) \<and>
   int (length [''b'', ''c'']) \<le> (3::int) \<and>
   is_expired 5 (new_entry 0 (1::nat) 1) \<and>
   distinct (keys [(''a'', new_entry 0 (1::nat) 1), (''b'', new_entry 1 2 3600)]) \<and>
   (\<exists>s'. cache_set 5 ''c'' (3::nat) None (Some ''p'')
           \<lparr>max_size = 3, default_ttl = 3600, the_cache = [],
            project_caches = [(''p'', [(''a'', new_entry 0 1 1), (''b'', new_entry 1 2 3600)])]\<rparr>
         = Inr (''c'', s') \<and>
         get_cache (Some ''p'') s' = [(''b'', new_entry 1 2 3600), (''c'', new_entry 5 3 3600)])"
proof -
  let ?ops = "[OpSet 0 ''a'' (1::nat) (Some 1) (Some ''p''), OpSet 1 ''b'' 2 None (Some ''p''),
               OpGet 1 ''a'' (Some ''p'')]"
  let ?s0 = "new_cache 3 3600 :: nat MemoryCache"
  let ?s1 = "\<lparr>max_size = 3, default_ttl = 3600, the_cache = [],
            project_caches = [(''p'', [(''a'', new_entry 0 (1::nat) 1), (''b'', new_entry 1 2 3600)])]\<rparr>"
  let ?s' = "\<lparr>max_size = 3, default_ttl = 3600, the_cache = [],
      project_caches = [(''p'', [(''b'', new_entry 1 (2::nat) 3600), (''c'', new_entry 5 3 3600)])]\<rparr>"
  have run: "run_ops (?ops @ [OpSet 5 ''c'' 3 None (Some ''p'')]) ?s0 = Inr ([Some 1], ?s')"
    by (simp add: cache_set_def cache_get_def ensure_cache_def get_cache_def put_cache_def
        cleanup_expired_def is_expired_def new_entry_def effective_ttl_def access_def
        move_to_end_def dict_del_def new_cache_def)
  with set_respects_max_size [of 5 "''c''" 3 None "Some ''p''" ?s0]
  have "int (length (get_cache (Some ''p'') ?s')) \<le> max_size ?s0" by blast
  then have bound: "int (length [''b'', ''c'']) \<le> (3::int)"
    by (simp add: get_cache_def new_cache_def)
  have ex: "is_expired 5 (new_entry 0 (1::nat) 1)"
    by (simp add: is_expired_def new_entry_def)
  have dst: "distinct (keys (get_cache (Some ''p'') ?s1))"
    by (simp add: get_cache_def keys_def)
  note inst = set_respects_max_size [of 5 "''c''" 3 None "Some ''p''" ?s1]
  have "1 \<le> max_size ?s1" by simp
  with inst obtain s' where st: "cache_set 5 ''c'' (3::nat) None (Some ''p'') ?s1 = Inr (''c'', s')"
    by blast
  with inst dst have "get_cache (Some ''p'') s' =
           filter (\<lambda>kv. fst kv \<noteq> ''c'')
             (drop (length (filter (\<lambda>kv. \<not> is_expired 5 (snd kv)) (get_cache (Some ''p'') ?s1))
                     - nat (max_size ?s1 - 1))
                (filter (\<lambda>kv. \<not> is_expired 5 (snd kv)) (get_cache (Some ''p'') ?s1)))
           @ [(''c'', new_entry 5 3 (effective_ttl None (default_ttl ?s1)))]"
    by blast
  then have "get_cache (Some ''p'') s' = [(''b'', new_entry 1 2 3600), (''c'', new_entry 5 3 3600)]"
    by (simp add: get_cache_def is_expired_def new_entry_def effective_ttl_def)
  with st run bound ex dst show ?thesis
    by (simp add: get_cache_def keys_def)
qed

subsection \<open>Helper facts about \<open>get\<close> and \<open>set\<close>\<close>

lemmas cache_eval_defs =
  cache_set_def cache_get_def ensure_cache_def get_cache_def put_cache_def
  cleanup_expired_def is_expired_def new_entry_def effective_ttl_def access_def
  move_to_end_def dict_del_def new_cache_def keys_def

lemma cache_get_miss:
  "dict_get (get_cache p s) key = None \<Longrightarrow> cache_get now key p s = (None, ensure_cache p s)"
  by (simp add: cache_get_def get_cache_ensure_cache)

lemma cache_get_expired:
  "dict_get (get_cache p s) key = Some e \<Longrightarrow> is_expired now e \<Longrightarrow>
   cache_get now key p s = (None, put_cache p (dict_del key (get_cache p s)) (ensure_cache p s))"
  by (simp add: cache_get_def get_cache_ensure_cache)

lemma cache_get_hit:
  "dict_get (get_cache p s) key = Some e \<Longrightarrow> \<not> is_expired now e \<Longrightarrow>
   cache_get now key p s =
     (Some (data e), put_cache p (dict_set key (access now e) (get_cache p s)) (ensure_cache p s))"
  by (simp add: cache_get_def get_cache_ensure_cache)

lemma keys_drop: "keys (drop n d) = drop n (keys d)"
  by (simp add: keys_def drop_map)

lemma filter_keys_dict_set:
  "filter (\<lambda>k'. k' \<noteq> k) (keys (dict_set k v d)) = filter (\<lambda>k'. k' \<noteq> k) (keys d)"
  by (simp add: keys_dict_set)

lemma keys_after_insert:
  "keys (move_to_end k (dict_set k v d)) = filter (\<lambda>k'. k' \<noteq> k) (keys d) @ [k]"
proof -
  have "k \<in> set (keys (dict_set k v d))"
    using dict_get_None_iff [of "dict_set k v d" k] by (simp add: dict_get_dict_set)
  then show ?thesis by (simp add: keys_move_to_end filter_keys_dict_set)
qed

lemma total_entries_get_stats:
  "total_entries (fst (get_stats now p s)) = length (get_cache p s)"
  by (simp add: get_stats_def Let_def get_cache_ensure_cache)

lemma store_after_set:
  assumes "cache_set now key d t p s = Inr (k, s')"
  shows "\<exists>c. get_cache p s' =
           dict_del key c @ [(key, new_entry now d (effective_ttl t (default_ttl s)))]"
proof -
  let ?e = "new_entry now d (effective_ttl t (default_ttl s))"
  from assms obtain c2 where
    s': "s' = put_cache p (move_to_end key (dict_set key ?e c2)) (ensure_cache p s)"
    unfolding cache_set_Inr by blast
  have "move_to_end key (dict_set key ?e c2) = dict_del key (dict_set key ?e c2) @ [(key, ?e)]"
    by (simp add: move_to_end_def dict_get_dict_set)
  then show ?thesis by (auto simp: s' get_cache_put_cache_same)
qed

lemma dict_del_idem: "dict_del k (dict_del k c @ [(k, v)]) = dict_del k c"
  by (simp add: dict_del_def)

lemma get_cache_put_cache_other:
  "scope p \<noteq> scope q \<Longrightarrow> get_cache q (put_cache p c s) = get_cache q s"
  by (cases p; cases q) (auto simp: scope_def get_cache_def put_cache_def dict_get_dict_set
      split: if_splits)

subsection \<open>Eviction order\<close>

text \<open>
  Claim C1 says that a \<^verbatim>\<open>get\<close> hit moves the entry to the most-recently-used position, so
  that after \<^verbatim>\<open>set(k1)\<close>, \<^verbatim>\<open>set(k2)\<close>, \<^verbatim>\<open>get(k1)\<close> an eviction removes \<open>k2\<close> first.
  \<^verbatim>\<open>MemoryCache.get\<close> only calls \<^verbatim>\<open>entry.access()\<close>; it never calls
  \<^verbatim>\<open>move_to_end\<close>.  With capacity 2, the call sequence of the claim followed by
  \<^verbatim>\<open>set(k3)\<close> evicts \<open>k1\<close> (the key just read) and keeps \<open>k2\<close>.
\<close>

theorem get_hit_recency_counterexample:
  "map_sum id (\<lambda>(rs, s). (rs, keys (get_cache None s)))
     (run_ops [OpSet 0 ''k1'' (1::nat) None None, OpSet 1 ''k2'' 2 None None,
               OpGet 2 ''k1'' None, OpSet 3 ''k3'' 3 None None] (new_cache 2 3600))
   = Inr ([Some 1], [''k2'', ''k3''])"
  by (simp add: cache_eval_defs)

text \<open>
  Claim C1 as amended.  A \<^verbatim>\<open>get\<close> hit returns the data and updates the entry's access
  metadata in place; the order of the keys in the store is unchanged.  A \<^verbatim>\<open>set\<close> that
  returns leaves, in order, the keys of a suffix of the store as it was after expiry
  cleanup (eviction drops from the front, that is the keys whose last \<^verbatim>\<open>set\<close> is oldest),
  without the written key, followed by the written key.
\<close>

theorem eviction_follows_insertion_order:
  "(\<forall>e. dict_get (get_cache p s) key = Some e \<and> \<not> is_expired now e \<longrightarrow>
        fst (cache_get now key p s) = Some (data e) \<and>
        keys (get_cache p (snd (cache_get now key p s))) = keys (get_cache p s) \<and>
        dict_get (get_cache p (snd (cache_get now key p s))) key = Some (access now e)) \<and>
   (\<forall>k s'. cache_set now key d t p s = Inr (k, s') \<longrightarrow>
        (\<exists>n. keys (get_cache p s') =
           filter (\<lambda>k'. k' \<noteq> key) (drop n (keys (cleanup_expired now (get_cache p s)))) @ [key]))"
proof (intro conjI allI impI)
  fix e
  assume a: "dict_get (get_cache p s) key = Some e \<and> \<not> is_expired now e"
  then have hit: "cache_get now key p s =
     (Some (data e), put_cache p (dict_set key (access now e) (get_cache p s)) (ensure_cache p s))"
    by (simp add: cache_get_hit)
  show "fst (cache_get now key p s) = Some (data e)" by (simp add: hit)
  show "keys (get_cache p (snd (cache_get now key p s))) = keys (get_cache p s)"
    using a by (simp add: hit get_cache_put_cache_same keys_dict_set_hit)
  show "dict_get (get_cache p (snd (cache_get now key p s))) key = Some (access now e)"
    by (simp add: hit get_cache_put_cache_same dict_get_dict_set)
next
  fix k s'
  assume "cache_set now key d t p s = Inr (k, s')"
  then obtain c2 where
    ev: "evict_if_needed (max_size s) (cleanup_expired now (get_cache p s)) = Inr c2" and
    s': "s' = put_cache p (move_to_end key
                  (dict_set key (new_entry now d (effective_ttl t (default_ttl s))) c2))
                  (ensure_cache p s)"
    unfolding cache_set_Inr by blast
  from evict_drop [OF ev] obtain n where "c2 = drop n (cleanup_expired now (get_cache p s))"
    by blast
  then have "keys (get_cache p s') =
      filter (\<lambda>k'. k' \<noteq> key) (drop n (keys (cleanup_expired now (get_cache p s)))) @ [key]"
    by (simp add: s' get_cache_put_cache_same keys_after_insert keys_drop)
  then show "\<exists>n. keys (get_cache p s') =
      filter (\<lambda>k'. k' \<noteq> key) (drop n (keys (cleanup_expired now (get_cache p s)))) @ [key]"
    by blast
qed

theorem eviction_follows_insertion_order_witness:
  "dict_get (get_cache None
      \<lparr>max_size = 2, default_ttl = 3600,
       the_cache = [(''k1'', new_entry 0 (1::nat) 3600), (''k2'', new_entry 1 2 3600)],
       project_caches = []\<rparr>) ''k1'' = Some (new_entry 0 1 3600) \<and>
   \<not> is_expired 2 (new_entry 0 (1::nat) 3600) \<and>
   keys (get_cache None (snd (cache_get 2 ''k1'' None
      \<lparr>max_size = 2, default_ttl = 3600,
       the_cache = [(''k1'', new_entry 0 (1::nat) 3600), (''k2'', new_entry 1 2 3600)],
       project_caches = []\<rparr>))) = [''k1'', ''k2''] \<and>
   (\<exists>s'. cache_set 2 ''k1'' (7::nat) None None
      \<lparr>max_size = 2, default_ttl = 3600,
       the_cache = [(''k1'', new_entry 0 (1::nat) 3600), (''k2'', new_entry 1 2 3600)],
       project_caches = []\<rparr> = Inr (''k1'', s') \<and>
      (\<exists>n. keys (get_cache None s') = filter (\<lambda>k'. k' \<noteq> ''k1'') (drop n [''k1'', ''k2'']) @ [''k1'']))"
proof -
  let ?s = "\<lparr>max_size = 2, default_ttl = 3600,
       the_cache = [(''k1'', new_entry 0 (1::nat) 3600), (''k2'', new_entry 1 2 3600)],
       project_caches = []\<rparr>"
  note inst = eviction_follows_insertion_order [of None ?s "''k1''" 2 7 None]
  have hit: "dict_get (get_cache None ?s) ''k1'' = Some (new_entry 0 1 3600) \<and>
             \<not> is_expired 2 (new_entry 0 (1::nat) 3600)"
    by (simp add: get_cache_def is_expired_def new_entry_def)
  with inst have "keys (get_cache None (snd (cache_get 2 ''k1'' None ?s))) = keys (get_cache None ?s)"
    by blast
  then have order: "keys (get_cache None (snd (cache_get 2 ''k1'' None ?s))) = [''k1'', ''k2'']"
    by (simp add: get_cache_def keys_def)
  have "1 \<le> max_size ?s" by simp
  then obtain c2 where
    "evict_if_needed (max_size ?s) (cleanup_expired 2 (get_cache None ?s)) = Inr c2"
    using evict_total by blast
  then obtain s' where run: "cache_set 2 ''k1'' (7::nat) None None ?s = Inr (''k1'', s')"
    unfolding cache_set_Inr by blast
  have cl: "keys (cleanup_expired 2 (get_cache None ?s)) = [''k1'', ''k2'']"
    by (simp add: cache_eval_defs)
  from inst run have "\<exists>n. keys (get_cache None s') =
      filter (\<lambda>k'. k' \<noteq> ''k1'') (drop n (keys (cleanup_expired 2 (get_cache None ?s)))) @ [''k1'']"
    by blast
  with run cl hit order show ?thesis by auto
qed

subsection \<open>Expiry\<close>

text \<open>
  Claim C2 says that an entry stored with \<open>ttl = T\<close> is a miss at every time \<open>\<ge> T\<close> after
  insertion.  \<^verbatim>\<open>is_expired\<close> compares with a strict \<open>>\<close>: exactly \<open>T\<close> seconds after
  insertion the entry is still returned.
\<close>

theorem ttl_boundary_counterexample:
  "map_sum id fst
     (run_ops [OpSet 0 ''k'' ''v'' (Some 10) None, OpGet 10 ''k'' None] (new_cache 10 3600))
   = Inr [Some ''v'']"
  by (simp add: cache_eval_defs)

text \<open>
  Claim C2 as amended.  Let \<open>T\<close> be the time to live the entry is stored with (the argument,
  or the default when the argument is absent or \<open>0\<close>).  After a \<^verbatim>\<open>set\<close> at time \<open>now\<close>
  that returned, a \<^verbatim>\<open>get\<close> at \<open>now'\<close> returns the value when \<open>now' - now \<le> T\<close>; when
  \<open>now' - now > T\<close> it is a miss that deletes the entry, so that a later \<^verbatim>\<open>get\<close> (at any
  time) is a miss too and \<^verbatim>\<open>get_stats\<close> counts one entry less.
\<close>

theorem ttl_boundary:
  assumes "cache_set now key d t p s = Inr (k, s')"
  shows "(now' - now \<le> real_of_int (effective_ttl t (default_ttl s)) \<longrightarrow>
            fst (cache_get now' key p s') = Some d) \<and>
         (now' - now > real_of_int (effective_ttl t (default_ttl s)) \<longrightarrow>
            fst (cache_get now' key p s') = None \<and>
            dict_get (get_cache p (snd (cache_get now' key p s'))) key = None \<and>
            fst (cache_get now'' key p (snd (cache_get now' key p s'))) = None \<and>
            total_entries (fst (get_stats now'' p (snd (cache_get now' key p s')))) + 1
              = total_entries (fst (get_stats now' p s')))"
proof -
  let ?e = "new_entry now d (effective_ttl t (default_ttl s))"
  from store_after_set [OF assms] obtain c where
    st: "get_cache p s' = dict_del key c @ [(key, ?e)]" by blast
  have look: "dict_get (get_cache p s') key = Some ?e"
    by (simp add: st dict_get_append dict_get_dict_del)
  have exp: "is_expired now' ?e \<longleftrightarrow> now' - now > real_of_int (effective_ttl t (default_ttl s))"
    by (simp add: is_expired_def new_entry_def)
  show ?thesis
  proof (intro conjI impI)
    assume "now' - now \<le> real_of_int (effective_ttl t (default_ttl s))"
    then have "\<not> is_expired now' ?e" using exp by simp
    from cache_get_hit [OF look this]
    show "fst (cache_get now' key p s') = Some d" by (simp add: new_entry_def)
  next
    assume "now' - now > real_of_int (effective_ttl t (default_ttl s))"
    then have "is_expired now' ?e" using exp by simp
    from cache_get_expired [OF look this]
    have g: "cache_get now' key p s' =
        (None, put_cache p (dict_del key (get_cache p s')) (ensure_cache p s'))" .
    show "fst (cache_get now' key p s') = None" by (simp add: g)
    have after: "get_cache p (snd (cache_get now' key p s')) = dict_del key c"
      by (simp add: g get_cache_put_cache_same st dict_del_idem)
    show gone: "dict_get (get_cache p (snd (cache_get now' key p s'))) key = None"
      by (simp add: after dict_get_dict_del)
    from cache_get_miss [OF gone]
    show "fst (cache_get now'' key p (snd (cache_get now' key p s'))) = None" by simp
    show "total_entries (fst (get_stats now'' p (snd (cache_get now' key p s')))) + 1
              = total_entries (fst (get_stats now' p s'))"
      by (simp add: total_entries_get_stats after st)
  qed
qed

theorem ttl_boundary_witness:
  "cache_set 0 ''k'' ''v'' (Some 10) None (new_cache 10 3600)
     = Inr (''k'', \<lparr>max_size = 10, default_ttl = 3600,
                     the_cache = [(''k'', new_entry 0 ''v'' 10)], project_caches = []\<rparr>) \<and>
   fst (cache_get 10 ''k'' None
          \<lparr>max_size = 10, default_ttl = 3600,
           the_cache = [(''k'', new_entry 0 ''v'' 10)], project_caches = []\<rparr>) = Some ''v'' \<and>
   fst (cache_get 11 ''k'' None
          \<lparr>max_size = 10, default_ttl = 3600,
           the_cache = [(''k'', new_entry 0 ''v'' 10)], project_caches = []\<rparr>) = None \<and>
   total_entries (fst (get_stats 12 None (snd (cache_get 11 ''k'' None
          \<lparr>max_size = 10, default_ttl = 3600,
           the_cache = [(''k'', new_entry 0 ''v'' 10)], project_caches = []\<rparr>)))) = 0"
proof -
  let ?s' = "\<lparr>max_size = 10, default_ttl = 3600,
           the_cache = [(''k'', new_entry 0 ''v'' 10)], project_caches = []\<rparr>"
  have run: "cache_set 0 ''k'' ''v'' (Some 10) None (new_cache 10 3600) = Inr (''k'', ?s')"
    by (simp add: cache_eval_defs)
  have T: "effective_ttl (Some 10) (default_ttl (new_cache 10 3600 :: string MemoryCache)) = 10"
    by (simp add: effective_ttl_def)
  have n: "total_entries (fst (get_stats 11 None ?s')) = 1"
    by (simp add: total_entries_get_stats get_cache_def)
  from ttl_boundary [OF run, of 10 12] T
  have a: "fst (cache_get 10 ''k'' None ?s') = Some ''v''" by simp
  from ttl_boundary [OF run, of 11 12] T n
  have b: "fst (cache_get 11 ''k'' None ?s') = None"
    and c: "total_entries (fst (get_stats 12 None (snd (cache_get 11 ''k'' None ?s')))) = 0"
    by simp_all
  from run a b c show ?thesis by simp
qed

subsection \<open>Scopes\<close>

text \<open>
  Claim C8 says that a tenant identifier and the tenant-less scope never share contents.
  \<^verbatim>\<open>_get_cache\<close> tests \<^verbatim>\<open>if project_id:\<close>, so the empty string, like \<^verbatim>\<open>None\<close>, resolves to
  the global store: a \<^verbatim>\<open>set\<close> with \<^verbatim>\<open>project_id = ""\<close> changes what the tenant-less scope
  holds.
\<close>

theorem tenant_isolation_counterexample:
  "Some '''' \<noteq> (None :: string option) \<and>
   map_sum id (\<lambda>(rs, s). get_cache None s)
     (run_ops [OpSet 0 ''k'' ''v'' (Some 60) (Some '''')] (new_cache 10 3600))
   = Inr [(''k'', new_entry 0 ''v'' 60)] \<and>
   get_cache None (new_cache 10 3600 :: string MemoryCache) = []"
  by (simp add: cache_eval_defs)

text \<open>
  Claim C8 as amended.  Two project ids that resolve to different stores (\<open>scope\<close>: the
  empty string counts as the tenant-less scope) are isolated: \<^verbatim>\<open>set\<close>, \<^verbatim>\<open>get\<close> and
  \<^verbatim>\<open>clear\<close> in one leave the contents of the other unchanged.  \<^verbatim>\<open>clear\<close> empties its own
  scope, and \<^verbatim>\<open>clear_all_projects\<close> empties every project store and leaves the global store
  as it was.
\<close>

theorem scope_isolation:
  "(scope p \<noteq> scope q \<longrightarrow>
      (\<forall>k s'. cache_set now key d t p s = Inr (k, s') \<longrightarrow> get_cache q s' = get_cache q s) \<and>
      get_cache q (snd (cache_get now key p s)) = get_cache q s \<and>
      get_cache q (clear p s) = get_cache q s) \<and>
   get_cache p (clear p s) = [] \<and>
   get_cache q (clear_all_projects s) = (if truthy q then [] else get_cache q s) \<and>
   the_cache (clear_all_projects s) = the_cache s"
proof (intro conjI impI allI)
  fix k s'
  assume d: "scope p \<noteq> scope q" and "cache_set now key d t p s = Inr (k, s')"
  then obtain c where "s' = put_cache p c (ensure_cache p s)"
    unfolding cache_set_Inr by blast
  then show "get_cache q s' = get_cache q s"
    by (simp add: get_cache_put_cache_other [OF d] get_cache_ensure_cache)
next
  assume d: "scope p \<noteq> scope q"
  show "get_cache q (snd (cache_get now key p s)) = get_cache q s"
    by (simp add: cache_get_def Let_def get_cache_put_cache_other [OF d] get_cache_ensure_cache
        split: option.splits)
  show "get_cache q (clear p s) = get_cache q s"
    using d by (cases p; cases q) (auto simp: scope_def get_cache_def clear_def dict_get_dict_set
        split: if_splits option.splits)
next
  show "get_cache p (clear p s) = []"
    by (auto simp: get_cache_def clear_def dict_get_dict_set split: option.splits)
  show "get_cache q (clear_all_projects s) = (if truthy q then [] else get_cache q s)"
    by (simp add: get_cache_def clear_all_projects_def)
  show "the_cache (clear_all_projects s) = the_cache s"
    by (simp add: clear_all_projects_def)
qed

theorem scope_isolation_witness:
  "scope (Some ''a'') \<noteq> scope (Some ''b'') \<and>
   cache_set 1 ''k'' ''v'' None (Some ''a'')
     \<lparr>max_size = 5, default_ttl = 60, the_cache = [],
      project_caches = [(''b'', [(''x'', new_entry 0 ''y'' 60)])]\<rparr>
   = Inr (''k'',
     \<lparr>max_size = 5, default_ttl = 60, the_cache = [],
      project_caches = [(''b'', [(''x'', new_entry 0 ''y'' 60)]),
                        (''a'', [(''k'', new_entry 1 ''v'' 60)])]\<rparr>) \<and>
   get_cache (Some ''b'')
     \<lparr>max_size = 5, default_ttl = 60, the_cache = [],
      project_caches = [(''b'', [(''x'', new_entry 0 ''y'' 60)]),
                        (''a'', [(''k'', new_entry 1 ''v'' 60)])]\<rparr>
   = [(''x'', new_entry 0 ''y'' 60)]"
proof -
  let ?s = "\<lparr>max_size = 5, default_ttl = 60, the_cache = [],
      project_caches = [(''b'', [(''x'', new_entry 0 ''y'' 60)])]\<rparr>"
  let ?s' = "\<lparr>max_size = 5, default_ttl = 60, the_cache = [],
      project_caches = [(''b'', [(''x'', new_entry 0 ''y'' 60)]),
                        (''a'', [(''k'', new_entry 1 ''v'' 60)])]\<rparr>"
  have d: "scope (Some ''a'') \<noteq> scope (Some ''b'')" by (simp add: scope_def)
  have run: "cache_set 1 ''k'' ''v'' None (Some ''a'') ?s = Inr (''k'', ?s')"
    by (simp add: cache_eval_defs)
  from scope_isolation [of "Some ''a''" "Some ''b''" 1 "''k''" "''v''" None ?s] d run
  have "get_cache (Some ''b'') ?s' = get_cache (Some ''b'') ?s" by blast
  then have "get_cache (Some ''b'') ?s' = [(''x'', new_entry 0 ''y'' 60)]"
    by (simp add: get_cache_def)
  with d run show ?thesis by simp
qed

subsection \<open>Key derivation\<close>

lemma sort_key_fst_cong:
  assumes d: "distinct (map fst xs)" and eq: "set xs = set ys" and d': "distinct (map fst ys)"
  shows "sort_key fst xs = sort_key fst ys"
proof -
  have "distinct xs" "distinct ys" using d d' by (auto simp: distinct_map)
  then have "mset xs = mset ys" using eq by (simp add: set_eq_iff_mset_eq_distinct)
  then have "mset xs = mset (sort_key fst ys)" by simp
  moreover have "inj_on fst (set xs)" using d by (simp add: distinct_map)
  moreover have "sorted (map fst (sort_key fst ys))" by simp
  ultimately show ?thesis by (rule sort_key_inj_key_eq)
qed

lemma reordered_dumps: "reordered a b \<Longrightarrow> json_dumps a = json_dumps b"
proof (induction rule: reordered.induct)
  case (same j)
  show ?case by simp
next
  case (in_list xs ys)
  then have "map json_dumps xs = map json_dumps ys"
    by (induction xs ys rule: list_all2_induct) auto
  then show ?case by simp
next
  case (in_dict kvs kvs')
  let ?f = "\<lambda>kv::string \<times> json. (fst kv, json_dumps (snd kv))"
  have sub: "?f ` set a \<subseteq> ?f ` set b"
    if ks: "set (map fst a) = set (map fst b)"
    and ih: "\<forall>k v v'. (k, v) \<in> set a \<and> (k, v') \<in> set b \<longrightarrow> json_dumps v = json_dumps v'"
    for a b :: "(string \<times> json) list"
  proof
    fix x assume "x \<in> ?f ` set a"
    then obtain k v where kv: "(k, v) \<in> set a" and x: "x = (k, json_dumps v)" by auto
    then have "k \<in> set (map fst b)" using ks by force
    then obtain v' where kv': "(k, v') \<in> set b" by auto
    with ih kv have "json_dumps v = json_dumps v'" by blast
    with x kv' show "x \<in> ?f ` set b" by force
  qed
  have "?f ` set kvs \<subseteq> ?f ` set kvs'"
    using in_dict.hyps(3) in_dict.IH by (intro sub) auto
  moreover have "?f ` set kvs' \<subseteq> ?f ` set kvs"
    using in_dict.hyps(3) in_dict.IH by (intro sub) auto
  ultimately have "set (map ?f kvs) = set (map ?f kvs')" by auto
  moreover have "map fst (map ?f kvs) = map fst kvs" "map fst (map ?f kvs') = map fst kvs'"
    by (simp_all add: comp_def)
  ultimately have "sort_key fst (map ?f kvs) = sort_key fst (map ?f kvs')"
    using in_dict.hyps(1,2) by (intro sort_key_fst_cong) (simp_all del: map_map)
  then show ?case by simp
qed

text \<open>
  Claim C6.  The key of a query is a function of the triple alone, so a result cached with
  \<^verbatim>\<open>cache_query_result\<close> that returned is what \<^verbatim>\<open>get_query_result\<close> for the same triple
  returns from the resulting state while the entry has not expired; and two inputs of the
  key derivation that differ only in the order of dictionary items, at any depth (also
  inside a structured query), derive the same key.
\<close>

theorem query_key_deterministic:
  "(\<forall>k s'. cache_query_result H now q r c p t s = Inr (k, s') \<and>
           now' - now \<le> real_of_int (effective_ttl t (default_ttl s)) \<longrightarrow>
           k = generate_key H (query_key_data q c p) \<and>
           fst (get_query_result H now' q c p s') = Some r) \<and>
   (\<forall>a b. reordered a b \<longrightarrow> generate_key H a = generate_key H b) \<and>
   (\<forall>q'. reordered q q' \<longrightarrow>
           generate_key H (query_key_data q c p) = generate_key H (query_key_data q' c p))"
proof (intro conjI allI impI)
  fix k s'
  assume a: "cache_query_result H now q r c p t s = Inr (k, s') \<and>
           now' - now \<le> real_of_int (effective_ttl t (default_ttl s))"
  let ?key = "generate_key H (query_key_data q c p)"
  from a have run: "cache_set now ?key r t p s = Inr (k, s')"
    by (simp add: cache_query_result_def)
  then show "k = ?key" unfolding cache_set_Inr by blast
  from store_after_set [OF run] obtain c0 where
    st: "get_cache p s' = dict_del ?key c0 @ [(?key, new_entry now r (effective_ttl t (default_ttl s)))]"
    by blast
  have look: "dict_get (get_cache p s') ?key = Some (new_entry now r (effective_ttl t (default_ttl s)))"
    by (simp add: st dict_get_append dict_get_dict_del)
  have "\<not> is_expired now' (new_entry now r (effective_ttl t (default_ttl s)))"
    using a by (simp add: is_expired_def new_entry_def)
  from cache_get_hit [OF look this]
  show "fst (get_query_result H now' q c p s') = Some r"
    by (simp add: get_query_result_def new_entry_def)
next
  fix a b
  assume "reordered a b"
  then show "generate_key H a = generate_key H b"
    by (simp add: generate_key_def reordered_dumps)
next
  fix q'
  assume r: "reordered q q'"
  have "reordered (query_key_data q c p) (query_key_data q' c p)"
    unfolding query_key_data_def
    by (rule reordered.in_dict) (use r in \<open>auto intro: reordered.same\<close>)
  then show "generate_key H (query_key_data q c p) = generate_key H (query_key_data q' c p)"
    by (simp add: generate_key_def reordered_dumps)
qed

theorem query_key_deterministic_witness:
  "reordered (JDict [(''b'', JInt 1), (''a'', JStr ''x'')]) (JDict [(''a'', JStr ''x''), (''b'', JInt 1)]) \<and>
   generate_key (take 16) (JDict [(''b'', JInt 1), (''a'', JStr ''x'')])
     = generate_key (take 16) (JDict [(''a'', JStr ''x''), (''b'', JInt 1)]) \<and>
   generate_key (take 16) (query_key_data (JDict [(''b'', JInt 1), (''a'', JStr ''x'')]) ''docs'' None)
     = generate_key (take 16) (query_key_data (JDict [(''a'', JStr ''x''), (''b'', JInt 1)]) ''docs'' None) \<and>
   (\<exists>s'. cache_query_result (take 16) 0 (JStr ''q'') ''res'' ''docs'' None (Some 5) (new_cache 3 3600)
           = Inr (generate_key (take 16) (query_key_data (JStr ''q'') ''docs'' None), s') \<and>
         (5::real) - 0 \<le> real_of_int (effective_ttl (Some 5) (default_ttl (new_cache 3 3600 :: string MemoryCache))) \<and>
         fst (get_query_result (take 16) 5 (JStr ''q'') ''docs'' None s') = Some ''res'')"
proof -
  let ?a = "JDict [(''b'', JInt 1), (''a'', JStr ''x'')]"
  let ?b = "JDict [(''a'', JStr ''x''), (''b'', JInt 1)]"
  let ?s = "new_cache 3 3600 :: string MemoryCache"
  note inst = query_key_deterministic
    [of "take 16" 0 "JStr ''q''" "''res''" "''docs''" None "Some 5" ?s 5]
  note inst' = query_key_deterministic
    [of "take 16" 0 ?a "''res''" "''docs''" None "Some 5" ?s 5]
  have ab: "reordered ?a ?b"
    by (rule reordered.in_dict) (auto intro: reordered.same)
  with inst have k1: "generate_key (take 16) ?a = generate_key (take 16) ?b" by blast
  from ab inst' have k2: "generate_key (take 16) (query_key_data ?a ''docs'' None)
     = generate_key (take 16) (query_key_data ?b ''docs'' None)" by blast
  have "1 \<le> max_size ?s" by (simp add: new_cache_def)
  from set_total [OF this, of 0 "generate_key (take 16) (query_key_data (JStr ''q'') ''docs'' None)"
      "''res''" "Some 5" None]
  obtain s' where run: "cache_query_result (take 16) 0 (JStr ''q'') ''res'' ''docs'' None (Some 5) ?s
           = Inr (generate_key (take 16) (query_key_data (JStr ''q'') ''docs'' None), s')"
    by (auto simp: cache_query_result_def)
  have le: "(5::real) - 0 \<le> real_of_int (effective_ttl (Some 5) (default_ttl ?s))"
    by (simp add: effective_ttl_def)
  from inst run le have "fst (get_query_result (take 16) 5 (JStr ''q'') ''docs'' None s') = Some ''res''"
    by blast
  with ab k1 k2 run le show ?thesis by blast
qed

section \<open>Properties of the entity graph\<close>

lemmas graph_eval_defs =
  add_entity_def add_relationship_def attach_def set_add_def index_get_def
  props_or_empty_def new_mapper_def keys_def

lemma dict_get_attach:
  "dict_get (attach eid rid ents) k =
     (if k = eid then map_option (\<lambda>e. e\<lparr>relationships := set_add rid (relationships e)\<rparr>) (dict_get ents eid)
      else dict_get ents k)"
  by (auto simp: attach_def dict_get_dict_set split: option.splits)

lemma keys_attach: "keys (attach eid rid ents) = keys ents"
  by (auto simp: attach_def keys_dict_set_hit split: option.splits)

lemma set_add_member: "x \<in> set (set_add x xs)"
  by (simp add: set_add_def)

lemma set_add_mono: "y \<in> set xs \<Longrightarrow> y \<in> set (set_add x xs)"
  by (simp add: set_add_def)

text \<open>
  Claim C3.  \<^verbatim>\<open>add_relationship\<close> with a source or a target that is not a key of the entity
  dictionary returns \<^verbatim>\<open>None\<close> and the mapper is exactly as before.  With both present it
  returns the relationship, which is then registered under its id, listed in the
  relationship sets of both endpoint entities and in the index entry of the
  \<open>(source, target)\<close> pair; the entity dictionary has the same keys as before.
\<close>

theorem add_relationship_endpoints:
  "(dict_get (entities m) src = None \<or> dict_get (entities m) tgt = None \<longrightarrow>
      add_relationship rid src tgt rtype p m = (None, m)) \<and>
   (dict_get (entities m) src \<noteq> None \<and> dict_get (entities m) tgt \<noteq> None \<longrightarrow>
      (\<exists>rel m'. add_relationship rid src tgt rtype p m = (Some rel, m') \<and>
         relationship_id rel = rid \<and> source_id rel = src \<and> target_id rel = tgt \<and>
         relationship_type rel = rtype \<and>
         dict_get (relationships_by_id m') rid = Some rel \<and>
         (\<exists>e. dict_get (entities m') src = Some e \<and> rid \<in> set (relationships e)) \<and>
         (\<exists>e. dict_get (entities m') tgt = Some e \<and> rid \<in> set (relationships e)) \<and>
         rid \<in> set (index_get (relationship_index m') (src, tgt)) \<and>
         keys (entities m') = keys (entities m)))"
proof (intro conjI impI)
  assume "dict_get (entities m) src = None \<or> dict_get (entities m) tgt = None"
  then show "add_relationship rid src tgt rtype p m = (None, m)"
    by (auto simp: add_relationship_def)
next
  assume a: "dict_get (entities m) src \<noteq> None \<and> dict_get (entities m) tgt \<noteq> None"
  then obtain es et where es: "dict_get (entities m) src = Some es"
    and et: "dict_get (entities m) tgt = Some et" by auto
  let ?rel = "\<lparr>relationship_id = rid, source_id = src, target_id = tgt,
               relationship_type = rtype, rel_properties = props_or_empty p\<rparr>"
  let ?m' = "m\<lparr>relationships_by_id := dict_set rid ?rel (relationships_by_id m),
               relationship_index :=
                 dict_set (src, tgt) (set_add rid (index_get (relationship_index m) (src, tgt)))
                   (relationship_index m),
               entities := attach tgt rid (attach src rid (entities m))\<rparr>"
  have run: "add_relationship rid src tgt rtype p m = (Some ?rel, ?m')"
    using es et by (simp add: add_relationship_def Let_def)
  have "dict_get (relationships_by_id ?m') rid = Some ?rel"
    by (simp add: dict_get_dict_set)
  moreover have "\<exists>e. dict_get (entities ?m') src = Some e \<and> rid \<in> set (relationships e)"
    using es et by (auto simp: dict_get_attach set_add_member set_add_mono)
  moreover have "\<exists>e. dict_get (entities ?m') tgt = Some e \<and> rid \<in> set (relationships e)"
    using es et by (auto simp: dict_get_attach set_add_member set_add_mono)
  moreover have "rid \<in> set (index_get (relationship_index ?m') (src, tgt))"
    by (simp add: index_get_def dict_get_dict_set set_add_member)
  moreover have "keys (entities ?m') = keys (entities m)"
    by (simp add: keys_attach)
  ultimately show "\<exists>rel m'. add_relationship rid src tgt rtype p m = (Some rel, m') \<and>
         relationship_id rel = rid \<and> source_id rel = src \<and> target_id rel = tgt \<and>
         relationship_type rel = rtype \<and>
         dict_get (relationships_by_id m') rid = Some rel \<and>
         (\<exists>e. dict_get (entities m') src = Some e \<and> rid \<in> set (relationships e)) \<and>
         (\<exists>e. dict_get (entities m') tgt = Some e \<and> rid \<in> set (relationships e)) \<and>
         rid \<in> set (index_get (relationship_index m') (src, tgt)) \<and>
         keys (entities m') = keys (entities m)"
    using run by (intro exI [of _ ?rel] exI [of _ ?m']) simp
qed


theorem add_relationship_endpoints_witness:
  "add_relationship ''r1'' ''A'' ''Z'' ''KNOWS'' None
     (snd (add_entity ''B'' ''Node'' None (snd (add_entity ''A'' ''Node'' None new_mapper))))
   = (None, snd (add_entity ''B'' ''Node'' None (snd (add_entity ''A'' ''Node'' None new_mapper)))) \<and>
   (\<exists>rel m'. add_relationship ''r1'' ''A'' ''B'' ''KNOWS'' None
       (snd (add_entity ''B'' ''Node'' None (snd (add_entity ''A'' ''Node'' None new_mapper))))
       = (Some rel, m') \<and>
      dict_get (relationships_by_id m') ''r1'' = Some rel \<and>
      (\<exists>e. dict_get (entities m') ''A'' = Some e \<and> ''r1'' \<in> set (relationships e)) \<and>
      (\<exists>e. dict_get (entities m') ''B'' = Some e \<and> ''r1'' \<in> set (relationships e)) \<and>
      ''r1'' \<in> set (index_get (relationship_index m') (''A'', ''B'')))"
proof -
  let ?g = "snd (add_entity ''B'' ''Node'' None (snd (add_entity ''A'' ''Node'' None new_mapper)))"
  have a: "dict_get (entities ?g) ''A'' \<noteq> None" and b: "dict_get (entities ?g) ''B'' \<noteq> None"
    and z: "dict_get (entities ?g) ''Z'' = None"
    by (simp_all add: graph_eval_defs Let_def)
  from add_relationship_endpoints [of ?g "''A''" "''Z''" "''r1''" "''KNOWS''" None] z
  have fail: "add_relationship ''r1'' ''A'' ''Z'' ''KNOWS'' None ?g = (None, ?g)" by blast
  from add_relationship_endpoints [of ?g "''A''" "''B''" "''r1''" "''KNOWS''" None] a b
  have "\<exists>rel m'. add_relationship ''r1'' ''A'' ''B'' ''KNOWS'' None ?g = (Some rel, m') \<and>
      dict_get (relationships_by_id m') ''r1'' = Some rel \<and>
      (\<exists>e. dict_get (entities m') ''A'' = Some e \<and> ''r1'' \<in> set (relationships e)) \<and>
      (\<exists>e. dict_get (entities m') ''B'' = Some e \<and> ''r1'' \<in> set (relationships e)) \<and>
      ''r1'' \<in> set (index_get (relationship_index m') (''A'', ''B''))"
    by blast
  with fail show ?thesis by blast
qed

lemma chain_graphD:
  assumes "chain_graph m A B C r1 r2"
  obtains eA eB eC rel1 rel2 where
    "A \<noteq> B" "B \<noteq> C" "A \<noteq> C" "r1 \<noteq> r2"
    "dict_get (entities m) A = Some eA" "entity_id eA = A" "relationships eA = [r1]"
    "dict_get (entities m) B = Some eB" "entity_id eB = B"
    "relationships eB = [r1, r2] \<or> relationships eB = [r2, r1]"
    "dict_get (entities m) C = Some eC" "entity_id eC = C" "relationships eC = [r2]"
    "dict_get (relationships_by_id m) r1 = Some rel1"
    "relationship_id rel1 = r1" "source_id rel1 = A" "target_id rel1 = B"
    "dict_get (relationships_by_id m) r2 = Some rel2"
    "relationship_id rel2 = r2" "source_id rel2 = B" "target_id rel2 = C"
  using assms unfolding chain_graph_def by (auto simp: map_option_case split: option.splits)

lemma chain_first_step:
  assumes "chain_graph m A B C r1 r2" and "1 \<le> d"
  shows "bfs m C d {} [(A, [])] = bfs m C d {A} [(B, [(A, r1)])]"
proof -
  from assms(1) obtain eB rel1 where
    ne: "A \<noteq> B" "B \<noteq> C" "A \<noteq> C"
    and A: "map_option relationships (dict_get (entities m) A) = Some [r1]"
    and B: "dict_get (entities m) B = Some eB" "entity_id eB = B"
    and r1: "dict_get (relationships_by_id m) r1 = Some rel1"
       "relationship_id rel1 = r1" "source_id rel1 = A" "target_id rel1 = B"
    by (elim chain_graphD) auto
  from A obtain eA where eA: "dict_get (entities m) A = Some eA" "relationships eA = [r1]"
    by (auto simp: map_option_case split: option.splits)
  have conn: "get_connected_entities m A None = Inr [(eB, rel1)]"
    by (simp add: get_connected_entities_def eA r1 B)
  have "expand C A [] [(eB, rel1)] [] = Inr [(B, [(A, r1)])]"
    using ne by (simp add: B r1)
  with conn assms(2) show ?thesis by simp
qed

lemma chain_second_step:
  assumes "chain_graph m A B C r1 r2" and "2 \<le> d"
  shows "bfs m C d {A} [(B, [(A, r1)])] = Inr (Some [(A, r1), (B, r2), (C, [])])"
proof -
  from assms(1) obtain eA eB eC rel1 rel2 where
    ne: "A \<noteq> B" "B \<noteq> C" "A \<noteq> C" "r1 \<noteq> r2"
    and A: "dict_get (entities m) A = Some eA" "entity_id eA = A"
    and B: "dict_get (entities m) B = Some eB"
       "relationships eB = [r1, r2] \<or> relationships eB = [r2, r1]"
    and C: "dict_get (entities m) C = Some eC" "entity_id eC = C"
    and r1: "dict_get (relationships_by_id m) r1 = Some rel1"
       "relationship_id rel1 = r1" "source_id rel1 = A" "target_id rel1 = B"
    and r2: "dict_get (relationships_by_id m) r2 = Some rel2"
       "relationship_id rel2 = r2" "source_id rel2 = B" "target_id rel2 = C"
    by (elim chain_graphD) auto
  from B(2) show ?thesis
  proof
    assume o: "relationships eB = [r1, r2]"
    have conn: "get_connected_entities m B None = Inr [(eA, rel1), (eC, rel2)]"
      using ne by (simp add: get_connected_entities_def B(1) o r1 r2 A C)
    have "expand C B [(A, r1)] [(eA, rel1), (eC, rel2)] [] = Inl [(A, r1), (B, r2), (C, [])]"
      using ne by (simp add: A C r1 r2)
    with conn assms(2) ne show ?thesis by simp
  next
    assume o: "relationships eB = [r2, r1]"
    have conn: "get_connected_entities m B None = Inr [(eC, rel2), (eA, rel1)]"
      using ne by (simp add: get_connected_entities_def B(1) o r1 r2 A C)
    have "expand C B [(A, r1)] [(eC, rel2), (eA, rel1)] [] = Inl [(A, r1), (B, r2), (C, [])]"
      using ne by (simp add: A C r1 r2)
    with conn assms(2) ne show ?thesis by simp
  qed
qed

text \<open>
  Claim C4.  In the chain graph, \<^verbatim>\<open>find_path(A, C, d)\<close> returns the two-hop path through
  \<open>B\<close> for every \<open>d \<ge> 2\<close> (whichever way the relationship set of \<open>B\<close> is iterated), returns
  \<^verbatim>\<open>None\<close> for \<open>d = 1\<close>, and \<^verbatim>\<open>find_path(A, A, d)\<close> returns the empty path for every \<open>d\<close>.
  In any graph, an endpoint that is not a key of the entity dictionary gives \<^verbatim>\<open>None\<close>.
\<close>

theorem find_path_chain:
  assumes "chain_graph m A B C r1 r2"
  shows "(2 \<le> d \<longrightarrow> find_path m A C d = Inr (Some [(A, r1), (B, r2), (C, [])])) \<and>
         find_path m A C 1 = Inr None \<and>
         find_path m A A d = Inr (Some []) \<and>
         (\<forall>(g::Mapper) x y. dict_get (entities g) x = None \<longrightarrow>
            find_path g x y d = Inr None \<and> find_path g y x d = Inr None)"
proof (intro conjI impI allI)
  from assms obtain eA eC where
    ne: "A \<noteq> C" and A: "dict_get (entities m) A = Some eA"
    and C: "dict_get (entities m) C = Some eC"
    by (elim chain_graphD) auto
  have start: "find_path m A C d' = bfs m C d' {} [(A, [])]" for d'
    using ne A C by (simp add: find_path_def)
  show "find_path m A C d = Inr (Some [(A, r1), (B, r2), (C, [])])" if "2 \<le> d"
    using that chain_first_step [OF assms, of d] chain_second_step [OF assms, of d]
    by (simp add: start)
  show "find_path m A C 1 = Inr None"
    using chain_first_step [OF assms, of 1] by (simp add: start)
  show "find_path m A A d = Inr (Some [])"
    using A by (simp add: find_path_def)
next
  fix g :: Mapper and x y
  assume "dict_get (entities g) x = None"
  then show "find_path g x y d = Inr None" "find_path g y x d = Inr None"
    by (simp_all add: find_path_def)
qed

theorem find_path_chain_witness:
  "chain_graph example_chain ''A'' ''B'' ''C'' ''r1'' ''r2'' \<and>
   find_path example_chain ''A'' ''C'' 2 = Inr (Some [(''A'', ''r1''), (''B'', ''r2''), (''C'', [])]) \<and>
   find_path example_chain ''A'' ''C'' 1 = Inr None \<and>
   find_path example_chain ''A'' ''A'' 0 = Inr (Some []) \<and>
   dict_get (entities example_chain) ''Z'' = None \<and>
   find_path example_chain ''Z'' ''A'' 5 = Inr None \<and>
   find_path example_chain ''A'' ''Z'' 5 = Inr None"
proof -
  have g: "chain_graph example_chain ''A'' ''B'' ''C'' ''r1'' ''r2''"
    unfolding chain_graph_def example_chain_def
    by (simp add: graph_eval_defs Let_def insert_commute)
  have z: "dict_get (entities example_chain) ''Z'' = None"
    by (simp add: example_chain_def graph_eval_defs Let_def)
  from find_path_chain [OF g, of 2]
  have a: "find_path example_chain ''A'' ''C'' 2
             = Inr (Some [(''A'', ''r1''), (''B'', ''r2''), (''C'', [])])"
    and b: "find_path example_chain ''A'' ''C'' 1 = Inr None"
    by simp_all
  from find_path_chain [OF g, of 0]
  have c: "find_path example_chain ''A'' ''A'' 0 = Inr (Some [])" by simp
  from find_path_chain [OF g, of 5] z
  have d: "find_path example_chain ''Z'' ''A'' 5 = Inr None"
    "find_path example_chain ''A'' ''Z'' 5 = Inr None" by blast+
  from g a b c z d show ?thesis by simp
qed

section \<open>Properties of the trail tracker\<close>

lemmas swarm_eval_defs =
  track_operation_def query_or_empty_def generate_trail_id_def new_trail_def reinforce_def
  evaporate_def index_get_def new_tracker_def get_hot_trails_def hot_entry_def slice_to_def
  Let_def

lemma log_after_track:
  "index_get (operation_patterns (snd (track_operation H now op coll q md s))) c =
     (if c = coll
      then index_get (operation_patterns s) c @
             [\<lparr>pattern_timestamp = now, pattern_operation = op,
               pattern_trail_id = generate_trail_id H op coll (query_or_empty q)\<rparr>]
      else index_get (operation_patterns s) c)"
  by (simp add: track_operation_def Let_def index_get_def dict_get_dict_set)

lemma length_log_track_all:
  "length (index_get (operation_patterns (track_all H calls s)) c) =
     length (index_get (operation_patterns s) c) +
     length (filter (\<lambda>call. fst (snd (snd call)) = c) calls)"
proof (induction calls arbitrary: s)
  case Nil
  show ?case by simp
next
  case (Cons call calls)
  obtain now op coll q where call: "call = (now, op, coll, q)" by (cases call) auto
  show ?case
    by (simp add: call Cons.IH log_after_track)
qed

lemma sorted_desc_sort_key:
  "sorted_wrt (\<lambda>a b. hot_strength a \<ge> hot_strength b) (sort_key (\<lambda>h. - hot_strength h) xs)"
proof -
  have "sorted (map (\<lambda>h. - hot_strength h) (sort_key (\<lambda>h. - hot_strength h) xs))"
    by (rule sorted_sort_key)
  then show ?thesis by (simp add: sorted_map)
qed

subsection \<open>Hot trails\<close>

text \<open>
  For a limit that is not negative, \<^verbatim>\<open>get_hot_trails\<close> does what its docstring says.  Every
  call replaces the strength of every tracked trail, hot or not, by
  \<open>max 0 (strength - evaporation_rate * elapsed minutes)\<close>, the minutes counted from that
  trail's own last update, and sets its last update to now.  For \<open>limit \<ge> 0\<close> the result
  is the first \<open>limit\<close> entries of a list that holds exactly the entries of the trails whose
  strength after evaporation is at least \<open>min_strength\<close>, in descending order of strength.
\<close>

lemma hot_trails_ranked:
  "trails (snd (get_hot_trails now min_strength limit s)) =
     map (\<lambda>(tid, t).
            (tid, t\<lparr>strength :=
                      max 0 (strength t - evaporation_rate s * ((now - last_update t) / 60)),
                    last_update := now\<rparr>))
         (trails s) \<and>
   (0 \<le> limit \<longrightarrow>
      (\<exists>ranked.
         mset ranked =
           mset (map hot_entry
                  (filter (\<lambda>t. strength t \<ge> min_strength)
                     (map snd (trails (snd (get_hot_trails now min_strength limit s)))))) \<and>
         sorted_wrt (\<lambda>a b. hot_strength a \<ge> hot_strength b) ranked \<and>
         fst (get_hot_trails now min_strength limit s) = take (nat limit) ranked) \<and>
      int (length (fst (get_hot_trails now min_strength limit s))) \<le> limit)"
proof (intro conjI impI)
  show "trails (snd (get_hot_trails now min_strength limit s)) =
     map (\<lambda>(tid, t).
            (tid, t\<lparr>strength :=
                      max 0 (strength t - evaporation_rate s * ((now - last_update t) / 60)),
                    last_update := now\<rparr>))
         (trails s)"
    by (simp add: get_hot_trails_def evaporate_def Let_def)
next
  assume l: "0 \<le> limit"
  let ?hot = "map hot_entry
                  (filter (\<lambda>t. strength t \<ge> min_strength)
                     (map snd (trails (snd (get_hot_trails now min_strength limit s)))))"
  let ?ranked = "sort_key (\<lambda>h. - hot_strength h) ?hot"
  have res: "fst (get_hot_trails now min_strength limit s) = take (nat limit) ?ranked"
    using l by (simp add: get_hot_trails_def slice_to_def Let_def)
  have "mset ?ranked = mset ?hot" by simp
  moreover have "sorted_wrt (\<lambda>a b. hot_strength a \<ge> hot_strength b) ?ranked"
    by (rule sorted_desc_sort_key)
  ultimately show "\<exists>ranked. mset ranked = mset ?hot \<and>
         sorted_wrt (\<lambda>a b. hot_strength a \<ge> hot_strength b) ranked \<and>
         fst (get_hot_trails now min_strength limit s) = take (nat limit) ranked"
    using res by blast
  show "int (length (fst (get_hot_trails now min_strength limit s))) \<le> limit"
    using l by (simp add: res)
qed

lemma hot_trails_ranked_example:
  "(0::int) \<le> 1 \<and>
   int (length (fst (get_hot_trails 60 (1 / 2) 1
      (track_all (\<lambda>x. x) [(0, ''query'', ''docs'', Some ''a''), (30, ''add'', ''docs'', None)]
         (new_tracker (1 / 100)))))) \<le> 1 \<and>
   map (\<lambda>h. (hot_trail_id h, hot_strength h)) (fst (get_hot_trails 60 (1 / 2) 1
      (track_all (\<lambda>x. x) [(0, ''query'', ''docs'', Some ''a''), (30, ''add'', ''docs'', None)]
         (new_tracker (1 / 100))))) = [(''add:docs:'', 199 / 200)] \<and>
   map (\<lambda>(tid, t). (tid, strength t)) (trails (snd (get_hot_trails 60 (1 / 2) 1
      (track_all (\<lambda>x. x) [(0, ''query'', ''docs'', Some ''a''), (30, ''add'', ''docs'', None)]
         (new_tracker (1 / 100)))))) = [(''query:docs:a'', 99 / 100), (''add:docs:'', 199 / 200)]"
proof -
  let ?s = "track_all (\<lambda>x. x) [(0, ''query'', ''docs'', Some ''a''), (30, ''add'', ''docs'', None)]
         (new_tracker (1 / 100))"
  have l: "(0::int) \<le> 1" by simp
  with hot_trails_ranked [of 60 "1 / 2" 1 ?s]
  have a: "int (length (fst (get_hot_trails 60 (1 / 2) 1 ?s))) \<le> 1" by blast
  have b: "map (\<lambda>h. (hot_trail_id h, hot_strength h)) (fst (get_hot_trails 60 (1 / 2) 1 ?s))
             = [(''add:docs:'', 199 / 200)]"
    by (simp add: swarm_eval_defs)
  have c: "map (\<lambda>(tid, t). (tid, strength t)) (trails (snd (get_hot_trails 60 (1 / 2) 1 ?s)))
             = [(''query:docs:a'', 99 / 100), (''add:docs:'', 199 / 200)]"
    by (simp add: swarm_eval_defs)
  from l a b c show ?thesis by simp
qed

text \<open>
  Claim C7 says that every \<^verbatim>\<open>get_hot_trails(min_strength, limit)\<close> call returns at most
  \<open>limit\<close> entries, and the docstring of the function calls \<open>limit\<close> the maximum number of
  trails to return.  The code takes the slice \<^verbatim>\<open>hot_trails[:limit]\<close> of the ranked list
  without looking at the sign of \<open>limit\<close>: for a negative \<open>limit\<close> the slice drops entries
  from the end instead of returning none.  With two trails tracked, no time elapsed,
  \<open>min_strength = 0\<close> and \<open>limit = -1\<close> the call returns one entry, which is more than
  \<open>limit\<close>.
\<close>

theorem hot_trails_negative_limit:
  "map hot_trail_id (fst (get_hot_trails 0 0 (- 1)
      (track_all (\<lambda>x. x) [(0, ''query'', ''docs'', Some ''a''), (0, ''query'', ''docs'', Some ''b'')]
         (new_tracker (1 / 100))))) = [''query:docs:a''] \<and>
   \<not> int (length (fst (get_hot_trails 0 0 (- 1)
      (track_all (\<lambda>x. x) [(0, ''query'', ''docs'', Some ''a''), (0, ''query'', ''docs'', Some ''b'')]
         (new_tracker (1 / 100)))))) \<le> - 1"
  by (simp add: swarm_eval_defs)

subsection \<open>The operation log\<close>

text \<open>
  Claim C9 says that the per-collection log that \<^verbatim>\<open>track_operation\<close> appends to is bounded.
  \<^verbatim>\<open>track_operation\<close> only ever appends, and nothing in the tracker removes a record
  (the other log of the same module, the smell list, is cut back to its last 1000 entries
  after each append).  After \<open>N\<close> calls naming a collection on a fresh tracker the stored
  log of that collection has \<open>N\<close> records, whatever the digest function; so no bound holds
  for every \<open>N\<close>.
\<close>

theorem operation_log_unbounded:
  "length (index_get (operation_patterns
      (track_all H (replicate N (0, ''query'', ''docs'', None)) (new_tracker (1 / 100))))
      ''docs'') = N \<and>
   \<not> (\<exists>B. \<forall>N. length (index_get (operation_patterns
          (track_all H (replicate N (0, ''query'', ''docs'', None)) (new_tracker (1 / 100))))
          ''docs'') \<le> B)"
proof -
  have len: "length (index_get (operation_patterns
          (track_all H (replicate M (0, ''query'', ''docs'', None)) (new_tracker (1 / 100))))
          ''docs'') = M" for M
    using length_log_track_all [of H "replicate M (0, ''query'', ''docs'', None)"
        "new_tracker (1 / 100)" "''docs''"]
    by (simp add: new_tracker_def index_get_def)
  have "\<not> (\<exists>B. \<forall>M::nat. M \<le> B)"
  proof
    assume "\<exists>B. \<forall>M::nat. M \<le> B"
    then obtain B where "\<forall>M::nat. M \<le> B" by blast
    then have "Suc B \<le> B" by blast
    then show False by simp
  qed
  then show ?thesis by (simp add: len)
qed

subsection \<open>Trail identity\<close>

text \<open>
  Claim C10.  \<^verbatim>\<open>track_operation\<close> with the query omitted (\<^verbatim>\<open>None\<close>) and with the empty string
  as query are the same call: same returned trail id (the one derived from the empty
  query) and same resulting tracker, so the same trail is created or reinforced.
\<close>

theorem track_absent_query_is_empty_query:
  "track_operation H now op coll None md s = track_operation H now op coll (Some []) md s \<and>
   fst (track_operation H now op coll None md s) = generate_trail_id H op coll []"
  by (simp add: track_operation_def query_or_empty_def Let_def)

theorem track_absent_query_is_empty_query_witness:
  "track_operation (\<lambda>x. x) 0 ''add'' ''docs'' None None (new_tracker (1 / 100))
     = track_operation (\<lambda>x. x) 0 ''add'' ''docs'' (Some []) None (new_tracker (1 / 100)) \<and>
   fst (track_operation (\<lambda>x. x) 0 ''add'' ''docs'' None None (new_tracker (1 / 100))) = ''add:docs:''"
proof -
  have "generate_trail_id (\<lambda>x. x) ''add'' ''docs'' [] = ''add:docs:''"
    by (simp add: generate_trail_id_def)
  with track_absent_query_is_empty_query
    [of "\<lambda>x. x" 0 "''add''" "''docs''" None "new_tracker (1 / 100)"]
  show ?thesis by metis
qed

end
